theory Spec2Isabelle
  imports Complex_Main "HOL-Library.Word"
begin

unbundle bit_operations_syntax

section \<open>Bytes, buffers and JavaScript values\<close>

text \<open>
  The repository holds two implementations of the D-Flash to EEPROM conversion: the
  client-side class \<open>FrmConverter\<close> (TypeScript, \<open>client/src/services/frm-converter.ts\<close>)
  and the server-side functions of \<open>server/routes.ts\<close>. Both are embedded here. Where
  the two have a function of the same purpose, the one of the class carries the prefix
  \<open>FrmConverter_\<close> and the one of the server its plain name.

  A \<open>Uint8Array\<close> or Node \<open>Buffer\<close> is a list of bytes. A JavaScript string is the
  list of its UTF-16 code units. Integral JavaScript numbers are \<open>nat\<close> or \<open>int\<close>.
\<close>

type_synonym byte = "8 word"
type_synonym js_string = "nat list"

datatype js_error =
  RangeError \<comment> \<open>an offset, a length or a value out of range\<close>
| FailedToAnalyze \<comment> \<open>the error that \<open>analyzeDFlash\<close> throws in place of any other\<close>

definition and_then :: "js_error + 'a \<Rightarrow> ('a \<Rightarrow> js_error + 'b) \<Rightarrow> js_error + 'b" where
  "and_then r f = (case r of Inl e \<Rightarrow> Inl e | Inr x \<Rightarrow> f x)"

definition js_str :: "string \<Rightarrow> js_string" where
  "js_str s = map of_char s"

text \<open>
  \<open>slice\<close> and \<open>subarray\<close> with \<open>0 \<le> start \<le> stop\<close>: both clamp to the
  length of the array, as \<open>take\<close> and \<open>drop\<close> do.
\<close>

definition js_slice :: "'a list \<Rightarrow> nat \<Rightarrow> nat \<Rightarrow> 'a list" where
  "js_slice xs start stop = take (stop - start) (drop start xs)"

text \<open>Indexing \<open>data[i]\<close>: \<open>undefined\<close> (here \<open>None\<close>) out of range.\<close>

definition js_index :: "byte list \<Rightarrow> nat \<Rightarrow> byte option" where
  "js_index xs i = (if i < length xs then Some (xs ! i) else None)"

text \<open>
  Overwriting a range of a buffer in place. The callers below check the range first
  and model what the source does when it does not fit.
\<close>

definition blit :: "byte list \<Rightarrow> nat \<Rightarrow> byte list \<Rightarrow> byte list" where
  "blit buf off src = take off buf @ src @ drop (off + length src) buf"

text \<open>\<open>TypedArray.prototype.set(source, offset)\<close>: a RangeError when the source does not fit.\<close>

definition Uint8Array_set :: "byte list \<Rightarrow> byte list \<Rightarrow> nat \<Rightarrow> js_error + byte list" where
  "Uint8Array_set buf src off =
     (if off + length src \<le> length buf then Inr (blit buf off src) else Inl RangeError)"

text \<open>The four bytes of an unsigned 32-bit value, least significant first.\<close>

definition le_bytes32 :: "nat \<Rightarrow> byte list" where
  "le_bytes32 v = [of_nat (v mod 256), of_nat (v div 256 mod 256),
                   of_nat (v div 65536 mod 256), of_nat (v div 16777216 mod 256)]"

text \<open>
  \<open>getUint32(0, littleEndian)\<close> on a view of four bytes, and Node's \<open>readUInt32LE\<close>:
  the unsigned value of the bytes, least significant first when little-endian.
\<close>

definition uint32_of :: "bool \<Rightarrow> byte list \<Rightarrow> nat" where
  "uint32_of littleEndian bs =
     foldr (\<lambda>b acc. unat b + 256 * acc) (if littleEndian then bs else rev bs) 0"

text \<open>\<open>ToInt32\<close> and \<open>ToUint32\<close>; \<open>x & 0xFFFFFFFF\<close> is \<open>ToInt32 x\<close>.\<close>

definition ToUint32 :: "int \<Rightarrow> nat" where
  "ToUint32 x = nat (x mod 4294967296)"

definition ToInt32 :: "int \<Rightarrow> int" where
  "ToInt32 x = (let m = x mod 4294967296 in if m \<ge> 2147483648 then m - 4294967296 else m)"

text \<open>
  \<open>DataView.prototype.setUint32(offset, value, true)\<close> on a view of the whole buffer:
  the value is taken modulo \<open>2^32\<close>; a RangeError when the four bytes do not fit.
\<close>

definition DataView_setUint32_LE :: "byte list \<Rightarrow> nat \<Rightarrow> int \<Rightarrow> js_error + byte list" where
  "DataView_setUint32_LE buf off v =
     (if off + 4 \<le> length buf then Inr (blit buf off (le_bytes32 (ToUint32 v)))
      else Inl RangeError)"

text \<open>
  \<open>Math.round\<close>: the nearest integer, a tie going towards plus infinity. The
  argument is an exact rational here: for an image of 32768 bytes every intermediate value
  of the two analyzers is a multiple of \<open>1/32\<close> of small size, which binary64 holds
  exactly. For other lengths the model divides exactly where binary64 rounds the quotient.
\<close>

definition Math_round :: "rat \<Rightarrow> int" where
  "Math_round x = floor (x + 1 / 2)"

subsection \<open>Text decoding and encoding\<close>

text \<open>
  \<open>new TextDecoder('ascii')\<close>: the label \<open>ascii\<close> selects the windows-1252 decoder,
  which is the identity below \<open>0x80\<close> and on \<open>0xA0..0xFF\<close>, and a table in between.
\<close>

definition windows1252_table :: "nat list" where
  "windows1252_table =
     [0x20AC, 0x81, 0x201A, 0x0192, 0x201E, 0x2026, 0x2020, 0x2021,
      0x02C6, 0x2030, 0x0160, 0x2039, 0x0152, 0x8D, 0x017D, 0x8F,
      0x90, 0x2018, 0x2019, 0x201C, 0x201D, 0x2022, 0x2013, 0x2014,
      0x02DC, 0x2122, 0x0161, 0x203A, 0x0153, 0x9D, 0x017E, 0x0178]"

definition windows1252 :: "byte \<Rightarrow> nat" where
  "windows1252 b =
     (if 0x80 \<le> unat b \<and> unat b < 0xA0 then windows1252_table ! (unat b - 0x80) else unat b)"

definition TextDecoder_ascii :: "byte list \<Rightarrow> js_string" where
  "TextDecoder_ascii bs = map windows1252 bs"

text \<open>
  \<open>new TextEncoder().encode\<close>: UTF-8, for code units of the basic plane outside the
  surrogates (the decoder above produces no others).
\<close>

definition utf8 :: "nat \<Rightarrow> byte list" where
  "utf8 c =
     (if c < 0x80 then [of_nat c]
      else if c < 0x800 then [of_nat (0xC0 + c div 64), of_nat (0x80 + c mod 64)]
      else [of_nat (0xE0 + c div 4096), of_nat (0x80 + c div 64 mod 64), of_nat (0x80 + c mod 64)])"

definition TextEncoder_encode :: "js_string \<Rightarrow> byte list" where
  "TextEncoder_encode s = concat (map utf8 s)"

text \<open>
  Node's \<open>buf.toString('ascii')\<close> clears the highest bit of every byte, and
  \<open>buf.write(s, offset, 'ascii')\<close> stores the low eight bits of every code unit, as many
  as fit; the offset must lie inside the buffer.
\<close>

definition Buffer_toString_ascii :: "byte list \<Rightarrow> js_string" where
  "Buffer_toString_ascii bs = map (\<lambda>b. unat b mod 128) bs"

definition Buffer_write_ascii :: "byte list \<Rightarrow> js_string \<Rightarrow> nat \<Rightarrow> js_error + byte list" where
  "Buffer_write_ascii buf s off =
     (if off \<le> length buf
      then Inr (blit buf off (take (length buf - off) (map (\<lambda>c. of_nat (c mod 256)) s)))
      else Inl RangeError)"

text \<open>
  \<open>buf.readUInt32LE(offset)\<close> and \<open>buf.writeUInt32LE(value, offset)\<close>: a RangeError
  when the four bytes are not inside the buffer, or the value is not an unsigned 32-bit
  number.
\<close>

definition Buffer_readUInt32LE :: "byte list \<Rightarrow> nat \<Rightarrow> js_error + nat" where
  "Buffer_readUInt32LE buf off =
     (if off + 4 \<le> length buf then Inr (uint32_of True (js_slice buf off (off + 4)))
      else Inl RangeError)"

definition Buffer_writeUInt32LE :: "byte list \<Rightarrow> int \<Rightarrow> int \<Rightarrow> js_error + byte list" where
  "Buffer_writeUInt32LE buf v off =
     (if 0 \<le> v \<and> v < 4294967296 \<and> 0 \<le> off \<and> nat off + 4 \<le> length buf
      then Inr (blit buf (nat off) (le_bytes32 (nat v)))
      else Inl RangeError)"

text \<open>
  \<open>source.copy(target, targetStart, sourceStart, sourceEnd)\<close>: copies what fits into
  the target.
\<close>

definition Buffer_copy :: "byte list \<Rightarrow> byte list \<Rightarrow> nat \<Rightarrow> nat \<Rightarrow> nat \<Rightarrow> byte list" where
  "Buffer_copy source target targetStart sourceStart sourceEnd =
     blit target targetStart
       (take (length target - targetStart) (js_slice source sourceStart sourceEnd))"

text \<open>
  \<open>haystack.includes(needle)\<close> on strings and on buffers, for a needle that is not
  empty: the needle occurs as a contiguous run.
\<close>

fun js_includes :: "'a list \<Rightarrow> 'a list \<Rightarrow> bool" where
  "js_includes [] needle = (needle = [])"
| "js_includes (x # xs) needle =
     (take (length needle) (x # xs) = needle \<or> js_includes xs needle)"

subsection \<open>The identifier pattern\<close>

text \<open>The regular expression \<open>/^[A-HJ-NPR-Z0-9]{17}$/\<close>, used by both implementations.\<close>

definition vin_char_class :: "nat \<Rightarrow> bool" where
  "vin_char_class c \<longleftrightarrow>
     (0x41 \<le> c \<and> c \<le> 0x48) \<or> (0x4A \<le> c \<and> c \<le> 0x4E) \<or> c = 0x50 \<or>
     (0x52 \<le> c \<and> c \<le> 0x5A) \<or> (0x30 \<le> c \<and> c \<le> 0x39)"

definition vin_regex_test :: "js_string \<Rightarrow> bool" where
  "vin_regex_test s \<longleftrightarrow> length s = 17 \<and> list_all vin_char_class s"

section \<open>The client-side converter: class FrmConverter\<close>

record VehicleData =
  vin :: "js_string option"
  mileage :: "nat option"
  model :: "string option"

datatype conversion_error =
  InvalidDFlashSize nat nat \<comment> \<open>expected and actual number of bytes, as the message gives them\<close>
| Thrown js_error \<comment> \<open>the message of an exception caught by the \<open>try\<close> block\<close>

text \<open>
  The result of the server's conversion has the first three fields; \<open>ConversionResult\<close>
  of the class adds the vehicle data.
\<close>

record ConversionOutcome =
  success :: bool
  eepromData :: "byte list option"
  error :: "conversion_error option"

record ConversionResult = ConversionOutcome +
  vehicleData :: "VehicleData option"

text \<open>
  The server's \<open>analyzeCorruption\<close> returns the first two fields; the class adds the
  number of sectors.
\<close>

record CorruptionAnalysis =
  corruptionLevel :: "int option" \<comment> \<open>\<open>None\<close> is a number that is not finite (\<open>NaN\<close>, an infinity)\<close>
  recoverableSectors :: nat

record CorruptionReport = CorruptionAnalysis +
  totalSectors :: nat

definition EEPROM_SIZE :: nat where
  "EEPROM_SIZE = 4096"

definition DFLASH_SIZE :: nat where
  "DFLASH_SIZE = 32768"

text \<open>The entries of \<open>VIN_PATTERNS\<close> as pairs of offset and length.\<close>

definition VIN_PATTERNS :: "(nat \<times> nat) list" where
  "VIN_PATTERNS = [(0x1000, 17), (0x1500, 17), (0x2000, 17)]"

definition MILEAGE_OFFSETS :: "nat list" where
  "MILEAGE_OFFSETS = [0x2100, 0x2200, 0x2300, 0x2400]"

fun extractVIN_patterns :: "byte list \<Rightarrow> (nat \<times> nat) list \<Rightarrow> js_string option" where
  "extractVIN_patterns dflashData [] = None"
| "extractVIN_patterns dflashData ((off, len) # patterns) =
     (let vin = TextDecoder_ascii (js_slice dflashData off (off + len))
      in if vin_regex_test vin then Some vin
         else extractVIN_patterns dflashData patterns)"

definition FrmConverter_extractVIN :: "byte list \<Rightarrow> js_string option" where
  "FrmConverter_extractVIN dflashData = extractVIN_patterns dflashData VIN_PATTERNS"

text \<open>
  The views are made on \<open>dflashData.buffer\<close>; the array is taken to start at byte 0 of
  its buffer and to span it, as an array made from an uploaded file does. The guard
  \<open>offset + 4 <= dflashData.length\<close> keeps the view inside the buffer.
\<close>

fun extractMileage_offsets :: "byte list \<Rightarrow> nat list \<Rightarrow> nat option" where
  "extractMileage_offsets dflashData [] = None"
| "extractMileage_offsets dflashData (off # offsets) =
     (if off + 4 \<le> length dflashData
      then (let mileageLE = uint32_of True (js_slice dflashData off (off + 4));
                mileageBE = uint32_of False (js_slice dflashData off (off + 4))
            in if 0 < mileageLE \<and> mileageLE < 1000000 then Some mileageLE
               else if 0 < mileageBE \<and> mileageBE < 1000000 then Some mileageBE
               else extractMileage_offsets dflashData offsets)
      else extractMileage_offsets dflashData offsets)"

definition FrmConverter_extractMileage :: "byte list \<Rightarrow> nat option" where
  "FrmConverter_extractMileage dflashData = extractMileage_offsets dflashData MILEAGE_OFFSETS"

definition modelMap :: "(js_string \<times> string) list" where
  "modelMap =
     [(js_str ''WBA'', ''BMW 3 Series''),
      (js_str ''WBY'', ''BMW X3''),
      (js_str ''5UX'', ''BMW X3 (US)''),
      (js_str ''WBX'', ''BMW X1''),
      (js_str ''WBS'', ''BMW M Series''),
      (js_str ''4US'', ''BMW (US Market)'')]"

definition FrmConverter_extractModel :: "byte list \<Rightarrow> string option" where
  "FrmConverter_extractModel dflashData =
     (case FrmConverter_extractVIN dflashData of
        None \<Rightarrow> None
      | Some v \<Rightarrow>
          (if v = [] then None
           else (case map_of modelMap (take 3 v) of
                   Some m \<Rightarrow> Some m
                 | None \<Rightarrow> Some ''BMW (Unknown Model)'')))"

definition FrmConverter_extractVehicleData :: "byte list \<Rightarrow> VehicleData" where
  "FrmConverter_extractVehicleData dflashData =
     \<lparr> vin = FrmConverter_extractVIN dflashData,
       mileage = FrmConverter_extractMileage dflashData,
       model = FrmConverter_extractModel dflashData \<rparr>"

definition eeprom_header :: "byte list" where
  "eeprom_header =
     [0xAA, 0x55, 0xFF, 0x00,
      0x01, 0x00, 0x00, 0x00,
      0x00, 0x10, 0x00, 0x00,
      0x00, 0x00, 0x00, 0x00]"

definition writeEEPROMHeader :: "byte list \<Rightarrow> js_error + byte list" where
  "writeEEPROMHeader eeprom = Uint8Array_set eeprom eeprom_header 0"

text \<open>
  The two tests \<open>if (vehicleData.vin)\<close> and \<open>if (vehicleData.mileage)\<close> are tests of
  truthiness: an empty string and the number 0 count as absent.
\<close>

definition writeVehicleData :: "byte list \<Rightarrow> VehicleData \<Rightarrow> js_error + byte list" where
  "writeVehicleData eeprom vd =
     and_then
       (case vin vd of
          None \<Rightarrow> Inr eeprom
        | Some v \<Rightarrow> if v = [] then Inr eeprom
                    else Uint8Array_set eeprom (TextEncoder_encode v) 0x10)
       (\<lambda>eeprom1.
          case mileage vd of
            None \<Rightarrow> Inr eeprom1
          | Some m \<Rightarrow> if m = 0 then Inr eeprom1
                      else DataView_setUint32_LE eeprom1 0x30 (int m))"

text \<open>\<open>dflashData[i] || dflt\<close>: the default replaces a missing byte and the byte 0.\<close>

definition byte_or :: "byte list \<Rightarrow> nat \<Rightarrow> byte \<Rightarrow> byte" where
  "byte_or dflashData i dflt =
     (case js_index dflashData i of
        None \<Rightarrow> dflt
      | Some b \<Rightarrow> if b = 0 then dflt else b)"

definition writeConfigurationData :: "byte list \<Rightarrow> byte list \<Rightarrow> js_error + byte list" where
  "writeConfigurationData eeprom dflashData =
     (let configOffset = 0x100;
          configData = [byte_or dflashData 0x500 0x00,
                        byte_or dflashData 0x501 0x00,
                        byte_or dflashData 0x502 0x1E,
                        byte_or dflashData 0x503 0x00]
      in Uint8Array_set eeprom configData configOffset)"

text \<open>
  The loop of \<open>calculateChecksums\<close> reads the indices \<open>0 .. EEPROM_SIZE - 5\<close> and
  keeps the running sum in 32 bits with \<open>& 0xFFFFFFFF\<close>. Its only caller passes the
  array of \<open>EEPROM_SIZE\<close> bytes; on a shorter array the final \<open>setUint32\<close> throws.
\<close>

definition checksum_loop :: "byte list \<Rightarrow> int" where
  "checksum_loop bs = fold (\<lambda>b checksum. ToInt32 (checksum + uint b)) bs 0"

definition calculateChecksums :: "byte list \<Rightarrow> js_error + byte list" where
  "calculateChecksums eeprom =
     (if length eeprom < EEPROM_SIZE then Inl RangeError
      else DataView_setUint32_LE eeprom (EEPROM_SIZE - 4)
             (checksum_loop (take (EEPROM_SIZE - 4) eeprom)))"

definition FrmConverter_convertDFlashToEEPROM :: "byte list \<Rightarrow> ConversionResult" where
  "FrmConverter_convertDFlashToEEPROM dflashData =
     (if length dflashData \<noteq> DFLASH_SIZE
      then \<lparr> success = False, eepromData = None,
             error = Some (InvalidDFlashSize DFLASH_SIZE (length dflashData)),
             vehicleData = None \<rparr>
      else
        (let eeprom = replicate EEPROM_SIZE 0xFF;
             vd = FrmConverter_extractVehicleData dflashData
         in case and_then (and_then (and_then (writeEEPROMHeader eeprom)
                     (\<lambda>e. writeVehicleData e vd))
                     (\<lambda>e. writeConfigurationData e dflashData))
                     calculateChecksums of
              Inr e \<Rightarrow> \<lparr> success = True, eepromData = Some e, error = None,
                         vehicleData = Some vd \<rparr>
            | Inl err \<Rightarrow> \<lparr> success = False, eepromData = None,
                           error = Some (Thrown err), vehicleData = None \<rparr>))"

text \<open>
  \<open>detectFRMType\<close> of the class decodes the whole image and looks for each signature
  anywhere in it.
\<close>

definition signatures :: "(string \<times> string) list" where
  "signatures =
     [(''XEQ384'', ''FRM3 XEQ384''),
      (''XET512'', ''FRM3 XET512''),
      (''FRM2'', ''FRM2'')]"

fun detect_signature :: "js_string \<Rightarrow> (string \<times> string) list \<Rightarrow> string" where
  "detect_signature dataString [] = ''FRM3 Unknown''"
| "detect_signature dataString ((pat, ty) # sigs) =
     (if js_includes dataString (js_str pat) then ty
      else detect_signature dataString sigs)"

definition FrmConverter_detectFRMType :: "byte list \<Rightarrow> string" where
  "FrmConverter_detectFRMType dflashData =
     detect_signature (TextDecoder_ascii dflashData) signatures"

text \<open>
  \<open>analyzeDFlashCorruption\<close>: a sector holds meaningful data when it is neither all
  0x00 nor all 0xFF. The loop over the sectors is a fold over \<open>0 ..< totalSectors\<close>;
  the quotient of 0 by 0 is \<open>NaN\<close>.
\<close>

definition sector_meaningful :: "byte list \<Rightarrow> bool" where
  "sector_meaningful sectorData \<longleftrightarrow>
     \<not> list_all (\<lambda>b. b = 0x00) sectorData \<and> \<not> list_all (\<lambda>b. b = 0xFF) sectorData"

definition FrmConverter_analyzeDFlashCorruption :: "byte list \<Rightarrow> CorruptionReport" where
  "FrmConverter_analyzeDFlashCorruption dflashData =
     (let sectorSize = 1024;
          total = length dflashData div sectorSize;
          recoverable =
            fold (\<lambda>sector count.
                    let start = sector * sectorSize;
                        stop = min (start + sectorSize) (length dflashData)
                    in if sector_meaningful (js_slice dflashData start stop)
                       then count + 1 else count)
                 [0 ..< total] 0
      in \<lparr> corruptionLevel =
             (if total = 0 then None
              else Some (Math_round (of_nat recoverable / of_nat total * 100))),
           recoverableSectors = recoverable,
           totalSectors = total \<rparr>)"

section \<open>The server-side functions\<close>

text \<open>
  The two scanning loops \<open>for (offset = start; offset < stop; offset += step)\<close> are
  recursions on the offset, which terminate because the distance to \<open>stop\<close> shrinks.
  \<open>vin.substring(0, 3)\<close> is \<open>js_slice v 0 3\<close>.
\<close>

function extractVin_from :: "byte list \<Rightarrow> nat \<Rightarrow> js_string option" where
  "extractVin_from data offset =
     (if offset < 8192
      then (if vin_regex_test (Buffer_toString_ascii (js_slice data offset (offset + 17)))
            then Some (Buffer_toString_ascii (js_slice data offset (offset + 17)))
            else extractVin_from data (offset + 16))
      else None)"
  by pat_completeness auto
termination
  by (relation "measure (\<lambda>(data, offset). 8192 - offset)") auto

definition extractVin :: "byte list \<Rightarrow> js_string option" where
  "extractVin data = extractVin_from data 4096"

definition extractModel :: "byte list \<Rightarrow> string option" where
  "extractModel data =
     (case extractVin data of
        None \<Rightarrow> None
      | Some v \<Rightarrow>
          (if v = [] then None
           else (let wmi = js_slice v 0 3
                 in if wmi = js_str ''WBA'' then Some ''BMW 3 Series''
                    else if wmi = js_str ''WBY'' then Some ''BMW X3''
                    else if wmi = js_str ''5UX'' then Some ''BMW X3 US''
                    else None)))"

definition yearMap :: "(js_string \<times> nat) list" where
  "yearMap =
     [(js_str ''1'', 2001), (js_str ''2'', 2002), (js_str ''3'', 2003),
      (js_str ''4'', 2004), (js_str ''5'', 2005), (js_str ''6'', 2006),
      (js_str ''7'', 2007), (js_str ''8'', 2008), (js_str ''9'', 2009),
      (js_str ''A'', 2010), (js_str ''B'', 2011), (js_str ''C'', 2012),
      (js_str ''D'', 2013), (js_str ''E'', 2014), (js_str ''F'', 2015)]"

text \<open>\<open>vin.charAt(9)\<close> is the string of the one code unit at index 9, or the empty string.\<close>

definition extractYear :: "byte list \<Rightarrow> nat option" where
  "extractYear data =
     (case extractVin data of
        None \<Rightarrow> None
      | Some v \<Rightarrow>
          (if v = [] then None
           else (let yearChar = js_slice v 9 10
                 in case map_of yearMap yearChar of
                      Some y \<Rightarrow> if y = 0 then None else Some y
                    | None \<Rightarrow> None)))"

function extractMileage_from :: "byte list \<Rightarrow> nat \<Rightarrow> js_error + nat option" where
  "extractMileage_from data offset =
     (if offset < 12288
      then (case Buffer_readUInt32LE data offset of
              Inl e \<Rightarrow> Inl e
            | Inr v \<Rightarrow> if 0 < v \<and> v < 1000000 then Inr (Some v)
                       else extractMileage_from data (offset + 4))
      else Inr None)"
  by pat_completeness auto
termination
  by (relation "measure (\<lambda>(data, offset). 12288 - offset)") auto

definition extractMileage :: "byte list \<Rightarrow> js_error + nat option" where
  "extractMileage data = extractMileage_from data 8192"

record ConfigurationData =
  xenonHeadlights :: bool
  angelEyes :: bool
  autoWipers :: bool
  comfortAccess :: bool
  followMeHome :: nat

text \<open>\<open>(data[i] & bits) !== 0\<close>; a missing byte is \<open>undefined\<close>, which \<open>&\<close> reads as 0.\<close>

definition flag_set :: "byte list \<Rightarrow> nat \<Rightarrow> byte \<Rightarrow> bool" where
  "flag_set data i bits =
     (case js_index data i of
        None \<Rightarrow> False
      | Some b \<Rightarrow> b AND bits \<noteq> 0)"

definition extractConfigurationData :: "byte list \<Rightarrow> ConfigurationData" where
  "extractConfigurationData data =
     \<lparr> xenonHeadlights = flag_set data 1280 1,
       angelEyes = flag_set data 1280 2,
       autoWipers = flag_set data 1281 1,
       comfortAccess = flag_set data 1281 2,
       followMeHome = (case js_index data 1282 of None \<Rightarrow> 0 | Some b \<Rightarrow> unat b) \<rparr>"

definition extractConfigurationFromDFlash :: "byte list \<Rightarrow> ConfigurationData" where
  "extractConfigurationFromDFlash data = extractConfigurationData data"

text \<open>
  \<open>JSON.stringify\<close> of the configuration object: the properties in the order of the
  object literal, the booleans as \<open>true\<close> and \<open>false\<close>, the number in decimal.
\<close>

fun decimal :: "nat \<Rightarrow> string" where
  "decimal n =
     (if n < 10 then [''0123456789'' ! n]
      else decimal (n div 10) @ [''0123456789'' ! (n mod 10)])"

declare decimal.simps [simp del]

definition json_bool :: "bool \<Rightarrow> string" where
  "json_bool b = (if b then ''true'' else ''false'')"

definition JSON_stringify :: "ConfigurationData \<Rightarrow> js_string" where
  \<open>JSON_stringify config =
     js_str (''{"xenonHeadlights":'' @ json_bool (xenonHeadlights config) @
             '',"angelEyes":'' @ json_bool (angelEyes config) @
             '',"autoWipers":'' @ json_bool (autoWipers config) @
             '',"comfortAccess":'' @ json_bool (comfortAccess config) @
             '',"followMeHome":'' @ decimal (followMeHome config) @ ''}'')\<close>

text \<open>\<open>Buffer.from(string)\<close> encodes as UTF-8, and \<open>Buffer.from(string, 'ascii')\<close>
  keeps the low eight bits of every code unit.\<close>

definition Buffer_from :: "js_string \<Rightarrow> byte list" where
  "Buffer_from s = TextEncoder_encode s"

definition Buffer_from_ascii :: "js_string \<Rightarrow> byte list" where
  "Buffer_from_ascii s = map (\<lambda>c. of_nat (c mod 256)) s"

text \<open>
  \<open>calculateEepromChecksums\<close> adds the bytes before the last four without wrapping in
  between, and writes \<open>checksum & 4294967295\<close> at \<open>length - 4\<close>.
\<close>

definition calculateEepromChecksums :: "byte list \<Rightarrow> js_error + byte list" where
  "calculateEepromChecksums eeprom =
     (let checksum = fold (\<lambda>b checksum. checksum + uint b)
                          (take (length eeprom - 4) eeprom) 0
      in Buffer_writeUInt32LE eeprom (ToInt32 checksum) (int (length eeprom) - 4))"

definition convert_steps :: "byte list \<Rightarrow> js_error + byte list" where
  "convert_steps dflashData =
     (let eeprom = replicate 4096 0x00
      in and_then
           (case extractVin dflashData of
              None \<Rightarrow> Inr eeprom
            | Some v \<Rightarrow> if v = [] then Inr eeprom else Buffer_write_ascii eeprom v 16)
           (\<lambda>eeprom1.
              and_then (extractMileage dflashData)
                (\<lambda>mileage.
                   and_then
                     (case mileage of
                        None \<Rightarrow> Inr eeprom1
                      | Some m \<Rightarrow> Buffer_writeUInt32LE eeprom1 (int m) 48)
                     (\<lambda>eeprom2.
                        let config = extractConfigurationFromDFlash dflashData;
                            configBuffer = Buffer_from (JSON_stringify config)
                        in calculateEepromChecksums
                             (Buffer_copy configBuffer eeprom2 256 0
                                (min (length configBuffer) 1024))))))"

text \<open>
  The body of the \<open>try\<close> block of the server's \<open>convertDFlashToEEPROM\<close> is
  \<open>convert_steps\<close>; an exception becomes the failure result.
\<close>

definition convertDFlashToEEPROM :: "byte list \<Rightarrow> ConversionOutcome" where
  "convertDFlashToEEPROM dflashData =
     (case convert_steps dflashData of
        Inr e \<Rightarrow> \<lparr> success = True, eepromData = Some e, error = None \<rparr>
      | Inl err \<Rightarrow> \<lparr> success = False, eepromData = None, error = Some (Thrown err) \<rparr>)"

definition detectFrmType :: "byte list \<Rightarrow> string" where
  "detectFrmType data =
     (let signature1 = js_slice data 256 272;
          signature2 = js_slice data 512 528
      in if js_includes signature1 (Buffer_from_ascii (js_str ''XEQ384'')) then ''FRM3 XEQ384''
         else if js_includes signature1 (Buffer_from_ascii (js_str ''XET512'')) then ''FRM3 XET512''
         else if length data = 32768 then ''FRM3 Unknown''
         else ''FRM2'')"

text \<open>
  \<open>analyzeCorruption\<close>: the loop over the 32 sectors carries the pair of
  \<open>corruptedBytes\<close> and \<open>recoverableSectors\<close>. A division by the length 0 gives an
  infinity.
\<close>

definition analyzeCorruption :: "byte list \<Rightarrow> CorruptionAnalysis" where
  "analyzeCorruption data =
     (let (corruptedBytes, recoverable) =
            fold (\<lambda>sector (corruptedBytes, recoverable).
                    let start = sector * 1024;
                        stop = start + 1024;
                        sectorData = js_slice data start stop;
                        allFF = list_all (\<lambda>b. b = 255) sectorData;
                        all00 = list_all (\<lambda>b. b = 0) sectorData
                    in if allFF \<or> all00 then (corruptedBytes + 1024, recoverable)
                       else (corruptedBytes, recoverable + 1))
                 [0 ..< 32] (0::nat, 0::nat)
      in \<lparr> corruptionLevel =
             (if length data = 0 then None
              else Some (Math_round
                     (100 - of_nat corruptedBytes / of_nat (length data) * 100))),
           recoverableSectors = recoverable \<rparr>)"

record ServerVehicleData = VehicleData +
  year :: "nat option"
  frmType :: string

record Analysis = CorruptionReport +
  analysisVehicleData :: ServerVehicleData
  configurationData :: ConfigurationData

text \<open>
  \<open>extractVehicleData\<close> of the server, here with the variant label that
  \<open>analyzeDFlash\<close> adds to it; only the odometer scan can throw.
\<close>

definition extractVehicleData :: "byte list \<Rightarrow> string \<Rightarrow> js_error + ServerVehicleData" where
  "extractVehicleData data ty =
     and_then (extractMileage data)
       (\<lambda>m. Inr \<lparr> vin = extractVin data, mileage = m, model = extractModel data,
                   year = extractYear data, frmType = ty \<rparr>)"

definition analyzeDFlash :: "byte list \<Rightarrow> js_error + Analysis" where
  "analyzeDFlash data =
     (let ty = detectFrmType data
      in case extractVehicleData data ty of
           Inl e \<Rightarrow> Inl FailedToAnalyze
         | Inr vd \<Rightarrow>
             (let corruptionAnalysis = analyzeCorruption data
              in Inr \<lparr> corruptionLevel = corruptionLevel corruptionAnalysis,
                       recoverableSectors = recoverableSectors corruptionAnalysis,
                       totalSectors = 32,
                       analysisVehicleData = vd,
                       configurationData = extractConfigurationData data \<rparr>))"

section \<open>Reading a produced image\<close>

text \<open>
  The bytes of the produced image at the offsets \<open>a ..< b\<close>, when the conversion
  produced one; this is what a reader of the artifact sees.
\<close>

definition image_bytes :: "'a ConversionOutcome_scheme \<Rightarrow> nat \<Rightarrow> nat \<Rightarrow> byte list option" where
  "image_bytes r a b = map_option (\<lambda>e. js_slice e a b) (eepromData r)"

text \<open>
  The check a reader of the artifact makes, in the words of the specification: the sum of
  all bytes before the last four, as unsigned integers, modulo \<open>2^32\<close>, against the
  little-endian unsigned 32-bit number in the last four bytes.
\<close>

definition additive_checksum :: "byte list \<Rightarrow> nat" where
  "additive_checksum e = sum_list (map unat (take (length e - 4) e)) mod 2 ^ 32"

definition stored_checksum :: "byte list \<Rightarrow> nat" where
  "stored_checksum e = uint32_of True (drop (length e - 4) e)"

section \<open>Images used as examples\<close>

text \<open>
  An image of 32768 bytes that is zero except for the bytes \<open>bs\<close> at the offset
  \<open>off\<close>, and the identifier \<open>WBA12345678901234\<close> as ASCII bytes.
\<close>

definition image_with :: "nat \<Rightarrow> byte list \<Rightarrow> byte list" where
  "image_with off bs = replicate off 0 @ bs @ replicate (32768 - off - length bs) 0"

definition vin_bytes :: "byte list" where
  "vin_bytes = [0x57, 0x42, 0x41, 0x31, 0x32, 0x33, 0x34, 0x35, 0x36, 0x37, 0x38, 0x39,
                0x30, 0x31, 0x32, 0x33, 0x34]"

text \<open>The identifier \<open>ZZZ123456G8901234\<close> as ASCII bytes.\<close>

definition vin_bytes_unmapped :: "byte list" where
  "vin_bytes_unmapped = [0x5A, 0x5A, 0x5A, 0x31, 0x32, 0x33, 0x34, 0x35, 0x36, 0x47, 0x38, 0x39,
                         0x30, 0x31, 0x32, 0x33, 0x34]"

section \<open>Auxiliary facts\<close>

subsection \<open>Sequencing, buffers and 32-bit values\<close>

lemma and_then_Inr [simp]: "and_then (Inr x) f = f x"
  by (simp add: and_then_def)

lemma and_then_Inl [simp]: "and_then (Inl e) f = Inl e"
  by (simp add: and_then_def)

lemma and_then_eq_Inr:
  "and_then r f = Inr y \<longleftrightarrow> (\<exists>x. r = Inr x \<and> f x = Inr y)"
  by (cases r) simp_all

lemma length_blit:
  "off + length src \<le> length buf \<Longrightarrow> length (blit buf off src) = length buf"
  by (simp add: blit_def)

lemma nth_blit:
  assumes "off + length src \<le> length buf" and "i < length buf"
  shows "blit buf off src ! i =
           (if off \<le> i \<and> i < off + length src then src ! (i - off) else buf ! i)"
proof -
  have l: "length (take off buf) = off"
    using assms by simp
  consider "i < off" | "off \<le> i" "i < off + length src" | "off + length src \<le> i"
    by linarith
  then show ?thesis
  proof cases
    case 1
    then show ?thesis using assms l by (simp add: blit_def nth_append)
  next
    case 2
    then have "i - off < length src" by linarith
    with 2 show ?thesis using assms l by (simp add: blit_def nth_append)
  next
    case 3
    then have a: "\<not> i < off" "\<not> i - off < length src" by linarith+
    have "off + length src + (i - off - length src) = i" using 3 by linarith
    with 3 a show ?thesis using assms l by (simp add: blit_def nth_append)
  qed
qed

lemma take_blit:
  "n \<le> off \<Longrightarrow> off \<le> length buf \<Longrightarrow> take n (blit buf off src) = take n buf"
  by (simp add: blit_def min_def)

lemma drop_blit:
  "off \<le> length buf \<Longrightarrow> drop off (blit buf off src) = src @ drop (off + length src) buf"
  by (simp add: blit_def)

lemma length_le_bytes32 [simp]: "length (le_bytes32 v) = 4"
  by (simp add: le_bytes32_def)

lemma unat_byte_mod: "unat (of_nat (k mod 256) :: byte) = k mod 256"
  by (simp add: unat_of_nat)

lemma uint32_of_le_bytes32:
  assumes "v < 4294967296"
  shows "uint32_of True (le_bytes32 v) = v"
proof -
  have "v div 16777216 < 256" using assms by simp
  then have h: "v div 16777216 mod 256 = v div 16777216" by simp
  have "uint32_of True (le_bytes32 v) =
          v mod 256 + 256 * (v div 256 mod 256 + 256 * (v div 65536 mod 256 + 256 * (v div 16777216 mod 256)))"
    unfolding uint32_of_def le_bytes32_def
    by (simp only: if_True foldr.simps o_apply unat_byte_mod id_apply) simp
  also have "\<dots> = v" unfolding h
  proof -
    have a: "v div 65536 = v div 256 div 256" by (simp add: div_mult2_eq)
    have b: "v div 16777216 = v div 256 div 256 div 256" by (simp add: div_mult2_eq)
    show "v mod 256 + 256 * (v div 256 mod 256 + 256 * (v div 65536 mod 256 + 256 * (v div 16777216))) = v"
      unfolding a b
      by (metis mod_mult_div_eq)
  qed
  finally show ?thesis .
qed

subsection \<open>Identifier pattern, odometer range and checksum loops\<close>

lemma vin_char_class_ascii: "vin_char_class c \<Longrightarrow> c < 0x80"
  by (auto simp: vin_char_class_def)

lemma vin_regex_test_length: "vin_regex_test v \<Longrightarrow> length v = 17"
  by (simp add: vin_regex_test_def)

lemma vin_regex_test_ascii: "vin_regex_test v \<Longrightarrow> c \<in> set v \<Longrightarrow> c < 0x80"
  by (auto simp: vin_regex_test_def list_all_iff dest: vin_char_class_ascii)

lemma utf8_ascii: "c < 0x80 \<Longrightarrow> utf8 c = [of_nat c]"
  by (simp add: utf8_def)

lemma TextEncoder_encode_ascii:
  "\<forall>c \<in> set s. c < 0x80 \<Longrightarrow> TextEncoder_encode s = map of_nat s"
  unfolding TextEncoder_encode_def
  by (induction s) (simp_all add: utf8_ascii)

lemma TextEncoder_encode_vin:
  "vin_regex_test v \<Longrightarrow> TextEncoder_encode v = map of_nat v"
  by (rule TextEncoder_encode_ascii) (auto dest: vin_regex_test_ascii)

lemma extractVIN_patterns_valid:
  "extractVIN_patterns d ps = Some v \<Longrightarrow> vin_regex_test v"
proof (induction ps)
  case Nil
  then show ?case by simp
next
  case (Cons p ps)
  obtain off len where p: "p = (off, len)" by (cases p)
  show ?case
  proof (cases "vin_regex_test (TextDecoder_ascii (js_slice d off (off + len)))")
    case True
    with Cons.prems p show ?thesis by (simp add: Let_def)
  next
    case False
    with Cons p show ?thesis by (simp add: Let_def)
  qed
qed

lemma FrmConverter_extractVIN_valid:
  "FrmConverter_extractVIN d = Some v \<Longrightarrow> vin_regex_test v"
  by (simp add: FrmConverter_extractVIN_def extractVIN_patterns_valid)

lemma extractMileage_offsets_range:
  "extractMileage_offsets d os = Some m \<Longrightarrow> 0 < m \<and> m < 1000000"
proof (induction os)
  case Nil
  then show ?case by simp
next
  case (Cons off os)
  then show ?case
    by (simp add: Let_def split: if_splits)
qed

lemma FrmConverter_extractMileage_range:
  "FrmConverter_extractMileage d = Some m \<Longrightarrow> 0 < m \<and> m < 1000000"
  by (simp add: FrmConverter_extractMileage_def extractMileage_offsets_range)

lemma ToUint32_small: "m < 4294967296 \<Longrightarrow> ToUint32 (int m) = m"
  by (simp add: ToUint32_def)

lemma uint_byte_bounds: "0 \<le> uint (b :: byte) \<and> uint b \<le> 255"
  using uint_lt2p [of b] by simp

lemma sum_list_uint_bounds:
  "0 \<le> sum_list (map uint (bs :: byte list)) \<and>
   sum_list (map uint bs) \<le> 255 * int (length bs)"
proof (induction bs)
  case Nil
  then show ?case by simp
next
  case (Cons b bs)
  with uint_byte_bounds [of b] show ?case by simp
qed

lemma sum_list_uint_unat: "sum_list (map uint (bs :: byte list)) = int (sum_list (map unat bs))"
  by (induction bs) simp_all

lemma ToInt32_small: "0 \<le> x \<Longrightarrow> x < 2147483648 \<Longrightarrow> ToInt32 x = x"
  by (simp add: ToInt32_def Let_def)

lemma checksum_fold:
  "0 \<le> acc \<Longrightarrow> acc + sum_list (map uint (bs :: byte list)) < 2147483648 \<Longrightarrow>
     fold (\<lambda>b checksum. ToInt32 (checksum + uint b)) bs acc = acc + sum_list (map uint bs)"
proof (induction bs arbitrary: acc)
  case Nil
  then show ?case by simp
next
  case (Cons b bs)
  have nn: "0 \<le> sum_list (map uint bs)"
    using sum_list_uint_bounds [of bs] by simp
  have b0: "0 \<le> uint b"
    using uint_byte_bounds [of b] by simp
  have small: "acc + uint b < 2147483648"
    using Cons.prems nn by simp
  have s: "ToInt32 (acc + uint b) = acc + uint b"
    using Cons.prems(1) b0 small by (intro ToInt32_small) linarith+
  have "fold (\<lambda>b checksum. ToInt32 (checksum + uint b)) bs (acc + uint b)
          = (acc + uint b) + sum_list (map uint bs)"
    using Cons.prems b0 by (intro Cons.IH) (linarith, simp add: add.assoc)
  then show ?case by (simp add: s add.assoc)
qed

lemma checksum_loop_eq:
  assumes "length bs \<le> 4096"
  shows "checksum_loop bs = sum_list (map uint bs)"
proof -
  have "sum_list (map uint bs) \<le> 255 * 4096"
    using sum_list_uint_bounds [of bs] assms by linarith
  then show ?thesis
    unfolding checksum_loop_def by (subst checksum_fold) simp_all
qed

lemma plain_fold_sum:
  "fold (\<lambda>b checksum. checksum + uint b) bs acc = acc + sum_list (map uint bs)"
  by (induction bs arbitrary: acc) simp_all

subsection \<open>The layout of the image built by the class\<close>

lemma length_eeprom_header [simp]: "length eeprom_header = 16"
  by (simp add: eeprom_header_def)

lemma FrmConverter_convert_image:
  assumes len: "length d = 32768"
  obtains e where
    "FrmConverter_convertDFlashToEEPROM d =
       \<lparr> success = True, eepromData = Some e, error = None,
         vehicleData = Some (FrmConverter_extractVehicleData d) \<rparr>"
    and "length e = 4096"
    and "\<And>i. i < 16 \<Longrightarrow> e ! i = eeprom_header ! i"
    and "\<And>i. 16 \<le> i \<Longrightarrow> i < 33 \<Longrightarrow>
           e ! i = (case FrmConverter_extractVIN d of
                      None \<Rightarrow> 0xFF | Some v \<Rightarrow> of_nat (v ! (i - 16)))"
    and "\<And>i. 48 \<le> i \<Longrightarrow> i < 52 \<Longrightarrow>
           e ! i = (case FrmConverter_extractMileage d of
                      None \<Rightarrow> 0xFF | Some m \<Rightarrow> le_bytes32 m ! (i - 48))"
    and "\<And>i. 256 \<le> i \<Longrightarrow> i < 260 \<Longrightarrow>
           e ! i = [byte_or d 0x500 0x00, byte_or d 0x501 0x00,
                    byte_or d 0x502 0x1E, byte_or d 0x503 0x00] ! (i - 256)"
    and "\<And>i. i < 4092 \<Longrightarrow> 16 \<le> i \<Longrightarrow> \<not> i < 33 \<or> FrmConverter_extractVIN d = None
            \<Longrightarrow> \<not> (48 \<le> i \<and> i < 52) \<or> FrmConverter_extractMileage d = None
            \<Longrightarrow> \<not> (256 \<le> i \<and> i < 260) \<Longrightarrow> e ! i = 0xFF"
    and "drop 4092 e = le_bytes32 (nat (sum_list (map uint (take 4092 e))))"
proof -
  define cfg where "cfg = [byte_or d 0x500 0x00, byte_or d 0x501 0x00,
                           byte_or d 0x502 0x1E, byte_or d 0x503 0x00]"
  define e1 where "e1 = blit (replicate 4096 0xFF) 0 eeprom_header"
  define e2 where "e2 = (case FrmConverter_extractVIN d of
                           None \<Rightarrow> e1 | Some v \<Rightarrow> blit e1 16 (map of_nat v))"
  define e3 where "e3 = (case FrmConverter_extractMileage d of
                           None \<Rightarrow> e2 | Some m \<Rightarrow> blit e2 48 (le_bytes32 m))"
  define e4 where "e4 = blit e3 256 cfg"
  define s where "s = sum_list (map uint (take 4092 e4))"
  define e5 where "e5 = blit e4 4092 (le_bytes32 (nat s))"
  have lcfg: "length cfg = 4" by (simp add: cfg_def)
  have l1: "length e1 = 4096" by (simp add: e1_def length_blit)
  have vlen: "length v = 17" if "FrmConverter_extractVIN d = Some v" for v
    using that FrmConverter_extractVIN_valid vin_regex_test_length by blast
  have l2: "length e2 = 4096"
    by (cases "FrmConverter_extractVIN d") (simp_all add: e2_def l1 length_blit vlen)
  have l3: "length e3 = 4096"
    by (cases "FrmConverter_extractMileage d") (simp_all add: e3_def l2 length_blit)
  have l4: "length e4 = 4096" by (simp add: e4_def l3 lcfg length_blit)
  have l5: "length e5 = 4096" by (simp add: e5_def l4 length_blit)
  have s_bounds: "0 \<le> s" "s \<le> 255 * 4092"
    using sum_list_uint_bounds [of "take 4092 e4"] by (simp_all add: s_def l4)
  have w1: "writeEEPROMHeader (replicate 4096 0xFF) = Inr e1"
    by (simp add: writeEEPROMHeader_def Uint8Array_set_def e1_def)
  have w2: "writeVehicleData e1 (FrmConverter_extractVehicleData d) = Inr e3"
  proof -
    have a: "(case FrmConverter_extractVIN d of
                None \<Rightarrow> Inr e1
              | Some v \<Rightarrow> if v = [] then Inr e1
                          else Uint8Array_set e1 (TextEncoder_encode v) 0x10) = Inr e2"
    proof (cases "FrmConverter_extractVIN d")
      case None
      then show ?thesis by (simp add: e2_def)
    next
      case (Some v)
      then have "vin_regex_test v" by (rule FrmConverter_extractVIN_valid)
      then have "TextEncoder_encode v = map of_nat v" "length v = 17" "v \<noteq> []"
        by (auto simp: TextEncoder_encode_vin vin_regex_test_length dest: vin_regex_test_length)
      with Some show ?thesis by (simp add: e2_def Uint8Array_set_def l1)
    qed
    have b: "(case FrmConverter_extractMileage d of
                None \<Rightarrow> Inr e2
              | Some m \<Rightarrow> if m = 0 then Inr e2
                          else DataView_setUint32_LE e2 0x30 (int m)) = Inr e3"
    proof (cases "FrmConverter_extractMileage d")
      case None
      then show ?thesis by (simp add: e3_def)
    next
      case (Some m)
      then have "0 < m \<and> m < 1000000" by (rule FrmConverter_extractMileage_range)
      then have "m \<noteq> 0" "ToUint32 (int m) = m" by (simp_all add: ToUint32_small)
      with Some show ?thesis by (simp add: e3_def DataView_setUint32_LE_def l2)
    qed
    show ?thesis
      unfolding writeVehicleData_def FrmConverter_extractVehicleData_def
      by (simp add: a b)
  qed
  have w3: "writeConfigurationData e3 d = Inr e4"
    by (simp add: writeConfigurationData_def Let_def Uint8Array_set_def l3 e4_def cfg_def)
  have w4: "calculateChecksums e4 = Inr e5"
  proof -
    have "checksum_loop (take 4092 e4) = s"
      unfolding s_def by (rule checksum_loop_eq) simp
    moreover have "ToUint32 s = nat s"
      using s_bounds by (simp add: ToUint32_def)
    ultimately show ?thesis
      by (simp add: calculateChecksums_def EEPROM_SIZE_def DataView_setUint32_LE_def l4 e5_def)
  qed
  have res: "FrmConverter_convertDFlashToEEPROM d =
       \<lparr> success = True, eepromData = Some e5, error = None,
         vehicleData = Some (FrmConverter_extractVehicleData d) \<rparr>"
    unfolding FrmConverter_convertDFlashToEEPROM_def
    by (simp add: len DFLASH_SIZE_def EEPROM_SIZE_def Let_def w1 w2 w3 w4)
  have n5: "e5 ! i = e4 ! i" if "i < 4092" for i
    using that by (simp add: e5_def nth_blit l4)
  have n4: "e4 ! i = (if 256 \<le> i \<and> i < 260 then cfg ! (i - 256) else e3 ! i)"
    if "i < 4096" for i
    using that by (simp add: e4_def nth_blit l3 lcfg)
  have n3: "e3 ! i = (if 48 \<le> i \<and> i < 52
                      then (case FrmConverter_extractMileage d of
                              None \<Rightarrow> e2 ! i | Some m \<Rightarrow> le_bytes32 m ! (i - 48))
                      else e2 ! i)"
    if "i < 4096" for i
    using that by (cases "FrmConverter_extractMileage d") (simp_all add: e3_def nth_blit l2)
  have n2: "e2 ! i = (if 16 \<le> i \<and> i < 33
                      then (case FrmConverter_extractVIN d of
                              None \<Rightarrow> e1 ! i | Some v \<Rightarrow> of_nat (v ! (i - 16)))
                      else e1 ! i)"
    if "i < 4096" for i
  proof (cases "FrmConverter_extractVIN d")
    case None
    then show ?thesis by (simp add: e2_def)
  next
    case (Some v)
    have lv: "length (map of_nat v :: byte list) = 17" using vlen [OF Some] by simp
    have "e2 ! i = (if 16 \<le> i \<and> i < 16 + 17
                    then (map of_nat v :: byte list) ! (i - 16) else e1 ! i)"
      using that Some lv by (simp add: e2_def nth_blit l1)
    moreover have "(map of_nat v :: byte list) ! (i - 16) = of_nat (v ! (i - 16))"
      if "16 \<le> i" "i < 33"
    proof -
      have "i - 16 < length v" using that vlen [OF Some] by linarith
      then show ?thesis by simp
    qed
    ultimately show ?thesis using Some by simp
  qed
  have n1: "e1 ! i = (if i < 16 then eeprom_header ! i else 0xFF)" if "i < 4096" for i
    using that by (simp add: e1_def nth_blit)
  have take5: "take 4092 e5 = take 4092 e4"
    by (simp add: e5_def take_blit l4)
  have drop5: "drop 4092 e5 = le_bytes32 (nat s)"
    by (simp add: e5_def drop_blit l4)
  show thesis
  proof (rule that [of e5])
    show "FrmConverter_convertDFlashToEEPROM d =
       \<lparr> success = True, eepromData = Some e5, error = None,
         vehicleData = Some (FrmConverter_extractVehicleData d) \<rparr>" by (rule res)
    show "length e5 = 4096" by (rule l5)
    show "e5 ! i = eeprom_header ! i" if "i < 16" for i
      using that by (simp add: n5 n4 n3 n2 n1)
    show "e5 ! i = (case FrmConverter_extractVIN d of
                      None \<Rightarrow> 0xFF | Some v \<Rightarrow> of_nat (v ! (i - 16)))"
      if "16 \<le> i" "i < 33" for i
      using that by (simp add: n5 n4 n3 n2 n1 split: option.split)
    show "e5 ! i = (case FrmConverter_extractMileage d of
                      None \<Rightarrow> 0xFF | Some m \<Rightarrow> le_bytes32 m ! (i - 48))"
      if "48 \<le> i" "i < 52" for i
      using that by (simp add: n5 n4 n3 n2 n1 split: option.split)
    show "e5 ! i = [byte_or d 0x500 0x00, byte_or d 0x501 0x00,
                    byte_or d 0x502 0x1E, byte_or d 0x503 0x00] ! (i - 256)"
      if "256 \<le> i" "i < 260" for i
      using that by (simp add: n5 n4 cfg_def)
    show "e5 ! i = 0xFF"
      if "i < 4092" "16 \<le> i" "\<not> i < 33 \<or> FrmConverter_extractVIN d = None"
         "\<not> (48 \<le> i \<and> i < 52) \<or> FrmConverter_extractMileage d = None"
         "\<not> (256 \<le> i \<and> i < 260)" for i
      using that by (auto simp add: n5 n4 n3 n2 n1)
    show "drop 4092 e5 = le_bytes32 (nat (sum_list (map uint (take 4092 e5))))"
      by (simp add: drop5 take5 s_def)
  qed
qed

subsection \<open>The scans of the server as searches for the first match\<close>

declare extractVin_from.simps [simp del]
declare extractMileage_from.simps [simp del]

lemma extractVin_from_find:
  "k \<le> 256 \<Longrightarrow>
     extractVin_from d (4096 + 16 * k) =
       map_option (\<lambda>j. Buffer_toString_ascii (js_slice d (4096 + 16 * j) (4096 + 16 * j + 17)))
         (List.find (\<lambda>j. vin_regex_test
                        (Buffer_toString_ascii (js_slice d (4096 + 16 * j) (4096 + 16 * j + 17))))
            [k ..< 256])"
proof (induction "256 - k" arbitrary: k)
  case 0
  then have "k = 256" by simp
  then show ?case by (simp add: extractVin_from.simps [of d 8192])
next
  case (Suc n)
  then have k: "k < 256" by simp
  then have off: "4096 + 16 * k < 8192" by simp
  have step: "4096 + 16 * k + 16 = 4096 + 16 * Suc k" by simp
  have IH: "extractVin_from d (4096 + 16 * Suc k) =
       map_option (\<lambda>j. Buffer_toString_ascii (js_slice d (4096 + 16 * j) (4096 + 16 * j + 17)))
         (List.find (\<lambda>j. vin_regex_test
                        (Buffer_toString_ascii (js_slice d (4096 + 16 * j) (4096 + 16 * j + 17))))
            [Suc k ..< 256])"
    using Suc.hyps(2) k by (intro Suc.hyps(1)) simp_all
  show ?case
    by (subst extractVin_from.simps) (simp only: off if_True step IH upt_conv_Cons [OF k] find.simps option.map split: if_split, simp)
qed

lemma extractVin_find:
  "extractVin d =
       map_option (\<lambda>j. Buffer_toString_ascii (js_slice d (4096 + 16 * j) (4096 + 16 * j + 17)))
         (List.find (\<lambda>j. vin_regex_test
                        (Buffer_toString_ascii (js_slice d (4096 + 16 * j) (4096 + 16 * j + 17))))
            [0 ..< 256])"
  using extractVin_from_find [of 0 d] by (simp add: extractVin_def)

lemma extractVin_valid: "extractVin d = Some v \<Longrightarrow> vin_regex_test v"
  by (auto simp: extractVin_find find_Some_iff)

lemma extractMileage_from_find:
  assumes len: "12288 \<le> length d"
  shows "k \<le> 1024 \<Longrightarrow>
     extractMileage_from d (8192 + 4 * k) =
       Inr (map_option (\<lambda>j. uint32_of True (js_slice d (8192 + 4 * j) (8192 + 4 * j + 4)))
         (List.find (\<lambda>j. 0 < uint32_of True (js_slice d (8192 + 4 * j) (8192 + 4 * j + 4)) \<and>
                          uint32_of True (js_slice d (8192 + 4 * j) (8192 + 4 * j + 4)) < 1000000)
            [k ..< 1024]))"
proof (induction "1024 - k" arbitrary: k)
  case 0
  then have "k = 1024" by simp
  then show ?case by (simp add: extractMileage_from.simps [of d 12288])
next
  case (Suc n)
  then have k: "k < 1024" by simp
  then have off: "8192 + 4 * k < 12288" by simp
  have step: "8192 + 4 * k + 4 = 8192 + 4 * Suc k" by simp
  have rd: "Buffer_readUInt32LE d (8192 + 4 * k) =
              Inr (uint32_of True (js_slice d (8192 + 4 * k) (8192 + 4 * k + 4)))"
    using len k by (simp add: Buffer_readUInt32LE_def)
  have IH: "extractMileage_from d (8192 + 4 * Suc k) =
       Inr (map_option (\<lambda>j. uint32_of True (js_slice d (8192 + 4 * j) (8192 + 4 * j + 4)))
         (List.find (\<lambda>j. 0 < uint32_of True (js_slice d (8192 + 4 * j) (8192 + 4 * j + 4)) \<and>
                          uint32_of True (js_slice d (8192 + 4 * j) (8192 + 4 * j + 4)) < 1000000)
            [Suc k ..< 1024]))"
    using Suc.hyps(2) k by (intro Suc.hyps(1)) simp_all
  show ?case
    apply (subst extractMileage_from.simps)
    apply (simp only: off if_True rd sum.case)
    apply (simp only: step IH upt_conv_Cons [OF k] find.simps)
    apply (simp split: if_split)
    done
qed

lemma extractMileage_find:
  assumes "12288 \<le> length d"
  shows "extractMileage d =
       Inr (map_option (\<lambda>j. uint32_of True (js_slice d (8192 + 4 * j) (8192 + 4 * j + 4)))
         (List.find (\<lambda>j. 0 < uint32_of True (js_slice d (8192 + 4 * j) (8192 + 4 * j + 4)) \<and>
                          uint32_of True (js_slice d (8192 + 4 * j) (8192 + 4 * j + 4)) < 1000000)
            [0 ..< 1024]))"
  using extractMileage_from_find [OF assms, of 0] by (simp add: extractMileage_def)

lemma extractMileage_range:
  "12288 \<le> length d \<Longrightarrow> extractMileage d = Inr (Some m) \<Longrightarrow> 0 < m \<and> m < 1000000"
  by (auto simp: extractMileage_find find_Some_iff)

subsection \<open>The layout of the image built by the server\<close>

lemma extractMileage_from_range:
  "extractMileage_from d off = Inr (Some m) \<Longrightarrow> 0 < m \<and> m < 1000000"
proof (induction d off rule: extractMileage_from.induct)
  case (1 d off)
  show ?case
  proof (cases "off < 12288")
    case False
    with "1.prems" show ?thesis by (simp add: extractMileage_from.simps [of d off])
  next
    case True
    show ?thesis
    proof (cases "Buffer_readUInt32LE d off")
      case (Inl e)
      with True "1.prems" show ?thesis by (simp add: extractMileage_from.simps [of d off])
    next
      case (Inr v)
      show ?thesis
      proof (cases "0 < v \<and> v < 1000000")
        case True
        with \<open>off < 12288\<close> Inr "1.prems" show ?thesis
          by (simp add: extractMileage_from.simps [of d off])
      next
        case False
        with \<open>off < 12288\<close> Inr "1.prems" have "extractMileage_from d (off + 4) = Inr (Some m)"
          by (simp add: extractMileage_from.simps [of d off])
        with "1.IH" [OF \<open>off < 12288\<close> Inr False] show ?thesis by simp
      qed
    qed
  qed
qed

lemma server_convert_image:
  assumes mil: "extractMileage d = Inr mil"
  obtains e where
    "convertDFlashToEEPROM d = \<lparr> success = True, eepromData = Some e, error = None \<rparr>"
    and "length e = 4096"
    and "\<And>i. i < 16 \<Longrightarrow> e ! i = 0"
    and "\<And>i. 16 \<le> i \<Longrightarrow> i < 33 \<Longrightarrow>
           e ! i = (case extractVin d of None \<Rightarrow> 0 | Some v \<Rightarrow> of_nat (v ! (i - 16)))"
    and "\<And>i. 33 \<le> i \<Longrightarrow> i < 48 \<Longrightarrow> e ! i = 0"
    and "\<And>i. 48 \<le> i \<Longrightarrow> i < 52 \<Longrightarrow>
           e ! i = (case mil of None \<Rightarrow> 0 | Some m \<Rightarrow> le_bytes32 m ! (i - 48))"
    and "\<And>i. 52 \<le> i \<Longrightarrow> i < 256 \<Longrightarrow> e ! i = 0"
    and "\<And>i. 256 \<le> i \<Longrightarrow> i < 4092 \<Longrightarrow>
           e ! i = (let chunk = take 1024 (Buffer_from (JSON_stringify
                                  (extractConfigurationFromDFlash d)))
                    in if i - 256 < length chunk then chunk ! (i - 256) else 0)"
    and "drop 4092 e = le_bytes32 (nat (sum_list (map uint (take 4092 e))))"
proof -
  define chunk where
    "chunk = take 1024 (Buffer_from (JSON_stringify (extractConfigurationFromDFlash d)))"
  define e0 :: "byte list" where "e0 = replicate 4096 0"
  define e1 where "e1 = (case extractVin d of
                           None \<Rightarrow> e0 | Some v \<Rightarrow> blit e0 16 (map of_nat v))"
  define e2 where "e2 = (case mil of
                           None \<Rightarrow> e1 | Some m \<Rightarrow> blit e1 48 (le_bytes32 m))"
  define e3 where "e3 = blit e2 256 chunk"
  define s where "s = sum_list (map uint (take 4092 e3))"
  define e4 where "e4 = blit e3 4092 (le_bytes32 (nat s))"
  have lchunk: "length chunk \<le> 1024" by (simp add: chunk_def)
  have l0: "length e0 = 4096" by (simp add: e0_def)
  have vlen: "length v = 17" if "extractVin d = Some v" for v
    using that extractVin_valid vin_regex_test_length by blast
  have l1: "length e1 = 4096"
    by (cases "extractVin d") (simp_all add: e1_def l0 length_blit vlen)
  have l2: "length e2 = 4096"
    by (cases mil) (simp_all add: e2_def l1 length_blit)
  have l3: "length e3 = 4096" using lchunk by (simp add: e3_def l2 length_blit)
  have l4: "length e4 = 4096" by (simp add: e4_def l3 length_blit)
  have s_bounds: "0 \<le> s" "s \<le> 255 * 4092"
    using sum_list_uint_bounds [of "take 4092 e3"] by (simp_all add: s_def l3)
  have a: "(case extractVin d of
              None \<Rightarrow> Inr e0
            | Some v \<Rightarrow> if v = [] then Inr e0 else Buffer_write_ascii e0 v 16) = Inr e1"
  proof (cases "extractVin d")
    case None
    then show ?thesis by (simp add: e1_def)
  next
    case (Some v)
    then have ok: "vin_regex_test v" by (rule extractVin_valid)
    then have lv: "length v = 17" and ne: "v \<noteq> []"
      by (auto dest: vin_regex_test_length)
    have "c mod 256 = c" if "c \<in> set v" for c
      using vin_regex_test_ascii [OF ok that] by simp
    then have eq: "map (\<lambda>c. of_nat (c mod 256)) v = (map of_nat v :: byte list)"
      by (intro map_cong) simp_all
    have tk: "take (length e0 - 16) (map of_nat v :: byte list) = map of_nat v"
      using lv by (simp add: l0)
    have "Buffer_write_ascii e0 v 16 = Inr (blit e0 16 (map of_nat v))"
      unfolding Buffer_write_ascii_def eq tk by (simp add: l0)
    with Some ne show ?thesis
      by (simp add: e1_def)
  qed
  have b: "(case mil of
              None \<Rightarrow> Inr e1
            | Some m \<Rightarrow> Buffer_writeUInt32LE e1 (int m) 48) = Inr e2"
  proof (cases mil)
    case None
    then show ?thesis by (simp add: e2_def)
  next
    case (Some m)
    with mil have "0 < m \<and> m < 1000000"
      by (simp add: extractMileage_def extractMileage_from_range)
    with Some show ?thesis by (simp add: e2_def Buffer_writeUInt32LE_def l1)
  qed
  have c: "Buffer_copy (Buffer_from (JSON_stringify (extractConfigurationFromDFlash d))) e2 256 0
             (min (length (Buffer_from (JSON_stringify (extractConfigurationFromDFlash d)))) 1024)
           = e3"
    by (simp add: Buffer_copy_def js_slice_def e3_def chunk_def l2 min_def)
  have w: "calculateEepromChecksums e3 = Inr e4"
  proof -
    have "fold (\<lambda>b checksum. checksum + uint b) (take (length e3 - 4) e3) 0 = s"
      by (simp add: plain_fold_sum s_def l3)
    moreover have "ToInt32 s = s"
      using s_bounds by (intro ToInt32_small) simp_all
    ultimately show ?thesis
      using s_bounds by (simp add: calculateEepromChecksums_def Buffer_writeUInt32LE_def l3 e4_def)
  qed
  have steps: "convert_steps d = Inr e4"
    unfolding convert_steps_def Let_def
    by (simp add: a [unfolded e0_def] b c w mil)
  have res: "convertDFlashToEEPROM d = \<lparr> success = True, eepromData = Some e4, error = None \<rparr>"
    by (simp add: convertDFlashToEEPROM_def steps)
  have n4: "e4 ! i = e3 ! i" if "i < 4092" for i
    using that by (simp add: e4_def nth_blit l3)
  have n3: "e3 ! i = (if 256 \<le> i \<and> i < 256 + length chunk then chunk ! (i - 256) else e2 ! i)"
    if "i < 4096" for i
    using that lchunk by (simp add: e3_def nth_blit l2)
  have n2: "e2 ! i = (if 48 \<le> i \<and> i < 52
                      then (case mil of None \<Rightarrow> e1 ! i | Some m \<Rightarrow> le_bytes32 m ! (i - 48))
                      else e1 ! i)"
    if "i < 4096" for i
    using that by (cases mil) (simp_all add: e2_def nth_blit l1)
  have n1: "e1 ! i = (if 16 \<le> i \<and> i < 33
                      then (case extractVin d of
                              None \<Rightarrow> e0 ! i | Some v \<Rightarrow> of_nat (v ! (i - 16)))
                      else e0 ! i)"
    if "i < 4096" for i
  proof (cases "extractVin d")
    case None
    then show ?thesis by (simp add: e1_def)
  next
    case (Some v)
    have lv: "length (map of_nat v :: byte list) = 17" using vlen [OF Some] by simp
    have "e1 ! i = (if 16 \<le> i \<and> i < 16 + 17
                    then (map of_nat v :: byte list) ! (i - 16) else e0 ! i)"
      using that Some lv by (simp add: e1_def nth_blit l0)
    moreover have "(map of_nat v :: byte list) ! (i - 16) = of_nat (v ! (i - 16))"
      if "16 \<le> i" "i < 33"
    proof -
      have "i - 16 < length v" using that vlen [OF Some] by linarith
      then show ?thesis by simp
    qed
    ultimately show ?thesis using Some by simp
  qed
  have n0: "e0 ! i = 0" if "i < 4096" for i
    using that by (simp add: e0_def)
  have take4: "take 4092 e4 = take 4092 e3"
    by (simp add: e4_def take_blit l3)
  have drop4: "drop 4092 e4 = le_bytes32 (nat s)"
    by (simp add: e4_def drop_blit l3)
  show thesis
  proof (rule that [of e4])
    show "convertDFlashToEEPROM d = \<lparr> success = True, eepromData = Some e4, error = None \<rparr>"
      by (rule res)
    show "length e4 = 4096" by (rule l4)
    show "e4 ! i = 0" if "i < 16" for i
      using that by (simp add: n4 n3 n2 n1 n0)
    show "e4 ! i = (case extractVin d of None \<Rightarrow> 0 | Some v \<Rightarrow> of_nat (v ! (i - 16)))"
      if "16 \<le> i" "i < 33" for i
      using that by (simp add: n4 n3 n2 n1 n0 split: option.split)
    show "e4 ! i = 0" if "33 \<le> i" "i < 48" for i
      using that by (simp add: n4 n3 n2 n1 n0)
    show "e4 ! i = (case mil of None \<Rightarrow> 0 | Some m \<Rightarrow> le_bytes32 m ! (i - 48))"
      if "48 \<le> i" "i < 52" for i
      using that by (simp add: n4 n3 n2 n1 n0 split: option.split)
    show "e4 ! i = 0" if "52 \<le> i" "i < 256" for i
      using that by (simp add: n4 n3 n2 n1 n0)
    show "e4 ! i = (let chunk = take 1024 (Buffer_from (JSON_stringify
                                  (extractConfigurationFromDFlash d)))
                    in if i - 256 < length chunk then chunk ! (i - 256) else 0)"
      if "256 \<le> i" "i < 4092" for i
    proof -
      have "i < 256 + length chunk \<longleftrightarrow> i - 256 < length chunk"
        using that by linarith
      then show ?thesis
        using that unfolding Let_def chunk_def [symmetric]
        by (simp add: n4 n3 n2 n1 n0)
    qed
    show "drop 4092 e4 = le_bytes32 (nat (sum_list (map uint (take 4092 e4))))"
      by (simp add: drop4 take4 s_def)
  qed
qed

subsection \<open>Slices of an image and the checksum relation\<close>

lemma slice_eq_map_nth:
  assumes "b \<le> length e"
  shows "js_slice e a b = map (\<lambda>i. e ! i) [a ..< b]"
proof (rule nth_equalityI)
  show "length (js_slice e a b) = length (map (\<lambda>i. e ! i) [a ..< b])"
    using assms by (simp add: js_slice_def)
next
  fix i assume "i < length (js_slice e a b)"
  then have "i < b - a" by (simp add: js_slice_def)
  then show "js_slice e a b ! i = map (\<lambda>i. e ! i) [a ..< b] ! i"
    using assms by (simp add: js_slice_def)
qed

lemma slice_eqI:
  assumes "b \<le> length e" and "\<And>i. a \<le> i \<Longrightarrow> i < b \<Longrightarrow> e ! i = f i"
  shows "js_slice e a b = map f [a ..< b]"
  unfolding slice_eq_map_nth [OF assms(1)]
  by (rule map_cong) (simp_all add: assms(2))

lemma slice_const:
  assumes "b \<le> length e" and "\<And>i. a \<le> i \<Longrightarrow> i < b \<Longrightarrow> e ! i = c"
  shows "js_slice e a b = replicate (b - a) c"
  using slice_eqI [of b e a "\<lambda>_. c", OF assms] by (simp add: map_replicate_const)

lemma checksum_ok:
  assumes "length e = 4096"
    and "drop 4092 e = le_bytes32 (nat (sum_list (map uint (take 4092 e))))"
  shows "additive_checksum e = stored_checksum e"
proof -
  have "nat (sum_list (map uint (take 4092 e))) = sum_list (map unat (take 4092 e))"
    by (simp add: sum_list_uint_unat)
  moreover have "sum_list (map unat (take 4092 e)) \<le> 255 * 4092"
    using sum_list_uint_bounds [of "take 4092 e"] assms(1)
    by (simp add: sum_list_uint_unat)
  ultimately show ?thesis
    using assms by (simp add: additive_checksum_def stored_checksum_def uint32_of_le_bytes32)
qed

lemma server_convert_failure:
  assumes "extractMileage d = Inl err"
  shows "convertDFlashToEEPROM d =
           \<lparr> success = False, eepromData = None, error = Some (Thrown err) \<rparr>"
proof -
  have "\<exists>e1. (case extractVin d of
              None \<Rightarrow> Inr (replicate 4096 0)
            | Some v \<Rightarrow> if v = [] then Inr (replicate 4096 0)
                        else Buffer_write_ascii (replicate 4096 0) v 16) = Inr e1"
    by (cases "extractVin d") (simp_all add: Buffer_write_ascii_def)
  then obtain e1 where "(case extractVin d of
              None \<Rightarrow> Inr (replicate 4096 0)
            | Some v \<Rightarrow> if v = [] then Inr (replicate 4096 0)
                        else Buffer_write_ascii (replicate 4096 0) v 16) = Inr e1" ..
  then have "convert_steps d = Inl err"
    unfolding convert_steps_def Let_def by (simp add: assms)
  then show ?thesis by (simp add: convertDFlashToEEPROM_def)
qed

subsection \<open>The image whose bytes are all 0xFF\<close>

lemma slice_replicate: "js_slice (replicate n x) a b = replicate (min (b - a) (n - a)) x"
  by (simp add: js_slice_def)

lemma vin_regex_test_replicate:
  "\<not> vin_char_class c \<Longrightarrow> \<not> vin_regex_test (replicate 17 c)"
  by (simp add: vin_regex_test_def list_all_iff)

lemma replicate_4: "replicate 4 x = [x, x, x, x]"
  by (simp add: numeral_eq_Suc)

lemma uint32_of_ff: "uint32_of le (replicate 4 0xFF) = 4294967295"
  by (simp add: uint32_of_def replicate_4)

lemma FrmConverter_extractVIN_ff: "FrmConverter_extractVIN (replicate 32768 0xFF) = None"
proof -
  have "\<not> vin_regex_test (TextDecoder_ascii (replicate 17 0xFF))"
    unfolding TextDecoder_ascii_def map_replicate
    by (rule vin_regex_test_replicate) (simp add: windows1252_def vin_char_class_def)
  then show ?thesis
    by (simp add: FrmConverter_extractVIN_def VIN_PATTERNS_def slice_replicate)
qed

lemma FrmConverter_extractMileage_ff:
  "FrmConverter_extractMileage (replicate 32768 0xFF) = None"
  by (simp add: FrmConverter_extractMileage_def MILEAGE_OFFSETS_def slice_replicate uint32_of_ff)

lemma byte_or_ff: "k < 32768 \<Longrightarrow> byte_or (replicate 32768 0xFF) k dflt = 0xFF"
  by (simp add: byte_or_def js_index_def)

lemma extractVin_ff: "extractVin (replicate 32768 0xFF) = None"
proof -
  have "\<not> vin_regex_test (Buffer_toString_ascii (replicate 17 0xFF))"
    unfolding Buffer_toString_ascii_def map_replicate
    by (rule vin_regex_test_replicate) (simp add: vin_char_class_def)
  moreover have "js_slice (replicate 32768 (0xFF :: byte)) (4096 + 16 * j) (4096 + 16 * j + 17)
                   = replicate 17 0xFF" if "j < 256" for j
    using that by (simp add: slice_replicate)
  ultimately show ?thesis
    by (simp add: extractVin_find find_None_iff)
qed

lemma extractMileage_ff: "extractMileage (replicate 32768 0xFF) = Inr None"
proof -
  have "js_slice (replicate 32768 (0xFF :: byte)) (8192 + 4 * j) (8192 + 4 * j + 4)
          = replicate 4 0xFF" if "j < 1024" for j
    using that by (simp add: slice_replicate)
  then show ?thesis
    by (simp add: extractMileage_find find_None_iff uint32_of_ff)
qed

lemma JSON_ff:
  "Buffer_from (JSON_stringify (extractConfigurationFromDFlash (replicate 32768 0xFF))) =
     [123, 34, 120, 101, 110, 111, 110, 72, 101, 97, 100, 108, 105, 103, 104, 116, 115, 34, 58,
      116, 114, 117, 101, 44, 34, 97, 110, 103, 101, 108, 69, 121, 101, 115, 34, 58, 116, 114,
      117, 101, 44, 34, 97, 117, 116, 111, 87, 105, 112, 101, 114, 115, 34, 58, 116, 114, 117,
      101, 44, 34, 99, 111, 109, 102, 111, 114, 116, 65, 99, 99, 101, 115, 115, 34, 58, 116,
      114, 117, 101, 44, 34, 102, 111, 108, 108, 111, 119, 77, 101, 72, 111, 109, 101, 34, 58,
      50, 53, 53, 125]"
proof -
  have d: "decimal 255 = ''255''"
    by (simp add: decimal.simps [of 255] decimal.simps [of 25] decimal.simps [of 2])
  show ?thesis
    by (simp add: Buffer_from_def TextEncoder_encode_def JSON_stringify_def js_str_def
        extractConfigurationFromDFlash_def extractConfigurationData_def flag_set_def
        js_index_def json_bool_def d utf8_def)
qed

lemma slice_split:
  "a \<le> b \<Longrightarrow> b \<le> c \<Longrightarrow> js_slice e a c = js_slice e a b @ js_slice e b c"
proof -
  assume ab: "a \<le> b" and bc: "b \<le> c"
  have "take (c - a) (drop a e) = take (b - a) (drop a e) @ take (c - b) (drop (b - a) (drop a e))"
    using ab bc take_add [of "b - a" "c - b" "drop a e"] by simp
  then show ?thesis using ab by (simp add: js_slice_def)
qed

lemma take_as_slice: "take n e = js_slice e 0 n"
  by (simp add: js_slice_def)

lemma slice_eq_listI:
  assumes "b \<le> length e" and "length xs = b - a"
    and "\<And>i. i < length xs \<Longrightarrow> e ! (a + i) = xs ! i"
  shows "js_slice e a b = xs"
proof (rule nth_equalityI)
  show "length (js_slice e a b) = length xs"
    using assms(1,2) by (simp add: js_slice_def)
next
  fix i assume "i < length (js_slice e a b)"
  then have "i < length xs" using assms(1,2) by (simp add: js_slice_def)
  then show "js_slice e a b ! i = xs ! i"
    using assms by (simp add: js_slice_def)
qed

lemma FrmConverter_image_ff:
  "image_bytes (FrmConverter_convertDFlashToEEPROM (replicate 32768 0xFF)) 0 4092 =
     Some (eeprom_header @ replicate 4076 0xFF)"
proof (rule FrmConverter_convert_image [of "replicate 32768 0xFF"])
  show "length (replicate 32768 (0xFF :: byte)) = 32768" by simp
next
  fix e
  assume r: "FrmConverter_convertDFlashToEEPROM (replicate 32768 0xFF) =
       \<lparr> success = True, eepromData = Some e, error = None,
         vehicleData = Some (FrmConverter_extractVehicleData (replicate 32768 0xFF)) \<rparr>"
    and l: "length e = 4096"
    and h: "\<And>i. i < 16 \<Longrightarrow> e ! i = eeprom_header ! i"
    and c: "\<And>i. 256 \<le> i \<Longrightarrow> i < 260 \<Longrightarrow>
           e ! i = [byte_or (replicate 32768 0xFF) 0x500 0x00,
                    byte_or (replicate 32768 0xFF) 0x501 0x00,
                    byte_or (replicate 32768 0xFF) 0x502 0x1E,
                    byte_or (replicate 32768 0xFF) 0x503 0x00] ! (i - 256)"
    and f: "\<And>i. i < 4092 \<Longrightarrow> 16 \<le> i \<Longrightarrow>
            \<not> i < 33 \<or> FrmConverter_extractVIN (replicate 32768 0xFF) = None
            \<Longrightarrow> \<not> (48 \<le> i \<and> i < 52) \<or>
                FrmConverter_extractMileage (replicate 32768 0xFF) = None
            \<Longrightarrow> \<not> (256 \<le> i \<and> i < 260) \<Longrightarrow> e ! i = 0xFF"
  have h': "js_slice e 0 16 = eeprom_header"
    using l h by (intro slice_eq_listI) simp_all
  have c': "e ! i = 0xFF" if "256 \<le> i" "i < 260" for i
  proof -
    have "i - 256 < 4" using that by linarith
    then have "[0xFF, 0xFF, 0xFF, 0xFF :: byte] ! (i - 256) = 0xFF"
      by (auto simp: less_Suc_eq numeral_eq_Suc nth_Cons')
    then show ?thesis using c [OF that] by (simp add: byte_or_ff)
  qed
  have "e ! i = 0xFF" if "16 \<le> i" "i < 4092" for i
  proof (cases "256 \<le> i \<and> i < 260")
    case True
    then show ?thesis using c' by simp
  next
    case False
    then show ?thesis
      using that f [of i] by (simp add: FrmConverter_extractVIN_ff FrmConverter_extractMileage_ff)
  qed
  then have "js_slice e 16 4092 = replicate (4092 - 16) 0xFF"
    using l by (intro slice_const) simp_all
  with h' have "js_slice e 0 4092 = eeprom_header @ replicate 4076 0xFF"
    using slice_split [of 0 16 4092 e] by simp
  then show ?thesis by (simp add: image_bytes_def r)
qed

lemma server_image_ff:
  "image_bytes (convertDFlashToEEPROM (replicate 32768 0xFF)) 0 4092 =
     Some (replicate 256 0 @
       [123, 34, 120, 101, 110, 111, 110, 72, 101, 97, 100, 108, 105, 103, 104, 116, 115, 34, 58,
        116, 114, 117, 101, 44, 34, 97, 110, 103, 101, 108, 69, 121, 101, 115, 34, 58, 116, 114,
        117, 101, 44, 34, 97, 117, 116, 111, 87, 105, 112, 101, 114, 115, 34, 58, 116, 114, 117,
        101, 44, 34, 99, 111, 109, 102, 111, 114, 116, 65, 99, 99, 101, 115, 115, 34, 58, 116,
        114, 117, 101, 44, 34, 102, 111, 108, 108, 111, 119, 77, 101, 72, 111, 109, 101, 34, 58,
        50, 53, 53, 125] @ replicate 3737 0)"
proof (rule server_convert_image [OF extractMileage_ff])
  fix e
  define json :: "byte list" where "json = Buffer_from (JSON_stringify
                                  (extractConfigurationFromDFlash (replicate 32768 0xFF)))"
  assume r: "convertDFlashToEEPROM (replicate 32768 0xFF) =
               \<lparr> success = True, eepromData = Some e, error = None \<rparr>"
    and l: "length e = 4096"
    and z1: "\<And>i. i < 16 \<Longrightarrow> e ! i = 0"
    and v: "\<And>i. 16 \<le> i \<Longrightarrow> i < 33 \<Longrightarrow>
           e ! i = (case extractVin (replicate 32768 0xFF) of
                      None \<Rightarrow> 0 | Some v \<Rightarrow> of_nat (v ! (i - 16)))"
    and z2: "\<And>i. 33 \<le> i \<Longrightarrow> i < 48 \<Longrightarrow> e ! i = 0"
    and m: "\<And>i. 48 \<le> i \<Longrightarrow> i < 52 \<Longrightarrow>
           e ! i = (case None of None \<Rightarrow> 0 | Some m \<Rightarrow> le_bytes32 m ! (i - 48))"
    and z3: "\<And>i. 52 \<le> i \<Longrightarrow> i < 256 \<Longrightarrow> e ! i = 0"
    and c: "\<And>i. 256 \<le> i \<Longrightarrow> i < 4092 \<Longrightarrow>
           e ! i = (let chunk = take 1024 (Buffer_from (JSON_stringify
                                  (extractConfigurationFromDFlash (replicate 32768 0xFF))))
                    in if i - 256 < length chunk then chunk ! (i - 256) else 0)"
  have lj: "length json = 99" unfolding json_def JSON_ff by simp
  have "e ! i = 0" if "i < 256" for i
  proof -
    have "i < 16 \<or> (16 \<le> i \<and> i < 33) \<or> (33 \<le> i \<and> i < 48) \<or>
          (48 \<le> i \<and> i < 52) \<or> (52 \<le> i \<and> i < 256)"
      using that by linarith
    then show ?thesis
      using z1 [of i] v [of i] z2 [of i] m [of i] z3 [of i]
      by (auto simp: extractVin_ff)
  qed
  then have s1: "js_slice e 0 256 = replicate (256 - 0) 0"
    using l by (intro slice_const) simp_all
  have c': "e ! i = (if i - 256 < 99 then json ! (i - 256) else 0)"
    if "256 \<le> i" "i < 4092" for i
    using c [OF that] lj unfolding Let_def json_def [symmetric] by simp
  have c2: "e ! (256 + i) = json ! i" if "i < length json" for i
    using c' [of "256 + i"] that lj by simp
  have s2: "js_slice e 256 355 = json"
    using l lj c2 by (intro slice_eq_listI) simp_all
  have c3: "e ! i = 0" if "355 \<le> i" "i < 4092" for i
  proof -
    have "\<not> i - 256 < 99" "256 \<le> i" using that by linarith+
    then show ?thesis using c' [of i] that by simp
  qed
  have s3: "js_slice e 355 4092 = replicate (4092 - 355) 0"
    using l c3 by (intro slice_const) simp_all
  have "js_slice e 0 4092 = replicate 256 0 @ json @ replicate 3737 0"
    using slice_split [of 0 256 4092 e] slice_split [of 256 355 4092 e] s1 s2 s3 by simp
  then show ?thesis
    unfolding json_def JSON_ff by (simp add: image_bytes_def r)
qed

lemma slice_single: "i < length e \<Longrightarrow> js_slice e i (Suc i) = [e ! i]"
  using slice_eq_listI [of "Suc i" e "[e ! i]" i] by simp

lemma slice_slice: "b \<le> c \<Longrightarrow> js_slice (js_slice e 0 c) a b = js_slice e a b"
  by (simp add: js_slice_def drop_take min_def)

lemma image_bytes_sub:
  "image_bytes r 0 c = Some xs \<Longrightarrow> b \<le> c \<Longrightarrow> image_bytes r a b = Some (js_slice xs a b)"
  by (auto simp: image_bytes_def slice_slice)

lemma writeEEPROMHeader_fresh:
  "writeEEPROMHeader (replicate EEPROM_SIZE 0xFF) = Inr (eeprom_header @ replicate 4080 0xFF)"
  by (simp add: writeEEPROMHeader_def Uint8Array_set_def EEPROM_SIZE_def blit_def)

subsection \<open>Counting the meaningful sectors\<close>

lemma fold_count:
  "fold (\<lambda>k c. if P k then c + 1 else c) xs acc = acc + length (filter P xs)"
  by (induction xs arbitrary: acc) simp_all

lemma fold_count_pair:
  "fold (\<lambda>k (cb, r). if B k then (cb + 1024, r) else (cb, r + 1)) xs (cb0, r0) =
     (cb0 + 1024 * length (filter B xs), r0 + length (filter (\<lambda>k. \<not> B k) xs))"
  by (induction xs arbitrary: cb0 r0) simp_all

lemma length_filter_upt:
  "length (filter P [0 ..< n]) = card {k. k < n \<and> P k}"
proof -
  have "{i. i < length [0 ..< n] \<and> P ([0 ..< n] ! i)} = {k. k < n \<and> P k}"
    by auto
  then show ?thesis by (simp add: length_filter_conv_card)
qed

lemma card_sectors_le: "card {k. k < n \<and> P k} \<le> (n :: nat)"
proof -
  have "card {k. k < n \<and> P k} \<le> card {..< n}"
    by (rule card_mono) auto
  then show ?thesis by simp
qed

lemma FrmConverter_analyze_32768:
  assumes "length d = 32768"
  shows "FrmConverter_analyzeDFlashCorruption d =
     \<lparr> corruptionLevel = Some (Math_round (100 * of_nat
           (card {k. k < 32 \<and> sector_meaningful (js_slice d (k * 1024) (k * 1024 + 1024))}) / 32)),
       recoverableSectors =
          card {k. k < 32 \<and> sector_meaningful (js_slice d (k * 1024) (k * 1024 + 1024))},
       totalSectors = 32 \<rparr>"
proof -
  have "fold (\<lambda>sector count.
            if sector_meaningful (js_slice d (sector * 1024) (min (sector * 1024 + 1024) 32768))
            then count + 1 else count) [0 ..< 32] 0
        = length (filter (\<lambda>k. sector_meaningful
                     (js_slice d (k * 1024) (min (k * 1024 + 1024) 32768))) [0 ..< 32])"
    by (simp add: fold_count)
  also have "\<dots> = length (filter (\<lambda>k. sector_meaningful
                     (js_slice d (k * 1024) (k * 1024 + 1024))) [0 ..< 32])"
    by (rule arg_cong [where f = length], rule filter_cong) (simp_all add: min_def)
  also have "\<dots> = card {k. k < 32 \<and> sector_meaningful (js_slice d (k * 1024) (k * 1024 + 1024))}"
    by (rule length_filter_upt)
  finally show ?thesis
    unfolding FrmConverter_analyzeDFlashCorruption_def Let_def
    by (simp add: assms)
qed

lemma analyzeCorruption_32768:
  assumes "length d = 32768"
  shows "analyzeCorruption d =
     \<lparr> corruptionLevel = Some (Math_round (100 * of_nat
           (card {k. k < 32 \<and> sector_meaningful (js_slice d (k * 1024) (k * 1024 + 1024))}) / 32)),
       recoverableSectors =
          card {k. k < 32 \<and> sector_meaningful (js_slice d (k * 1024) (k * 1024 + 1024))} \<rparr>"
proof -
  define B where "B k \<longleftrightarrow> list_all (\<lambda>b. b = 255) (js_slice d (k * 1024) (k * 1024 + 1024)) \<or>
                          list_all (\<lambda>b. b = 0) (js_slice d (k * 1024) (k * 1024 + 1024))" for k
  define n where "n = card {k. k < 32 \<and> sector_meaningful (js_slice d (k * 1024) (k * 1024 + 1024))}"
  define nb where "nb = length (filter B [0 ..< 32])"
  have nB: "(\<not> B k) = sector_meaningful (js_slice d (k * 1024) (k * 1024 + 1024))" for k
    by (auto simp: B_def sector_meaningful_def)
  have rec: "length (filter (\<lambda>k. \<not> B k) [0 ..< 32]) = n"
    unfolding nB n_def by (rule length_filter_upt)
  have "nb + n = 32"
    using sum_length_filter_compl [of B "[0 ..< 32]"] by (simp add: nb_def rec)
  then have nb: "nb = 32 - n" and n32: "n \<le> 32" by simp_all
  have f: "fold (\<lambda>sector (corruptedBytes, recoverable).
              if list_all (\<lambda>b. b = 255) (js_slice d (sector * 1024) (sector * 1024 + 1024)) \<or>
                 list_all (\<lambda>b. b = 0) (js_slice d (sector * 1024) (sector * 1024 + 1024))
              then (corruptedBytes + 1024, recoverable)
              else (corruptedBytes, recoverable + 1)) [0 ..< 32] (0, 0)
           = (1024 * nb, n)"
  proof -
    have eq: "(\<lambda>sector (corruptedBytes :: nat, recoverable :: nat).
              if list_all (\<lambda>b. b = 255) (js_slice d (sector * 1024) (sector * 1024 + 1024)) \<or>
                 list_all (\<lambda>b. b = 0) (js_slice d (sector * 1024) (sector * 1024 + 1024))
              then (corruptedBytes + 1024, recoverable)
              else (corruptedBytes, recoverable + 1))
          = (\<lambda>k (cb, r). if B k then (cb + 1024, r) else (cb, r + 1))"
      by (simp add: B_def)
    show ?thesis
      unfolding eq fold_count_pair by (simp add: nb_def rec)
  qed
  have lvl: "100 - of_nat (1024 * nb) / of_nat 32768 * 100 = (100 * of_nat n / 32 :: rat)"
    using n32 by (simp add: nb of_nat_diff field_simps)
  show ?thesis
    unfolding analyzeCorruption_def Let_def f n_def [symmetric]
    by (simp only: prod.case assms lvl) simp
qed

lemma analyzeDFlash_32768:
  assumes "length d = 32768"
  shows "\<exists>vd. analyzeDFlash d =
     Inr \<lparr> corruptionLevel = corruptionLevel (analyzeCorruption d),
           recoverableSectors = recoverableSectors (analyzeCorruption d),
           totalSectors = 32,
           analysisVehicleData = vd,
           configurationData = extractConfigurationData d \<rparr>"
proof -
  have "12288 \<le> length d" using assms by simp
  from extractMileage_find [OF this] obtain m where "extractMileage d = Inr m" by blast
  then show ?thesis
    by (simp add: analyzeDFlash_def extractVehicleData_def Let_def)
qed

lemma sector_replicate:
  "k < 32 \<Longrightarrow> js_slice (replicate 32768 x) (k * 1024) (k * 1024 + 1024) = replicate 1024 x"
  by (simp add: slice_replicate)

lemma sector_meaningful_replicate:
  "sector_meaningful (replicate 1024 x) \<longleftrightarrow> x \<noteq> 0 \<and> x \<noteq> 0xFF"
  by (auto simp: sector_meaningful_def list_all_iff)

lemma card_sectors_replicate:
  "card {k. k < 32 \<and> sector_meaningful (js_slice (replicate 32768 x) (k * 1024) (k * 1024 + 1024))}
     = (if x \<noteq> 0 \<and> x \<noteq> 0xFF then 32 else 0)"
proof -
  have "{k. k < 32 \<and> sector_meaningful (js_slice (replicate 32768 x) (k * 1024) (k * 1024 + 1024))}
          = {k. k < 32 \<and> (x \<noteq> 0 \<and> x \<noteq> 0xFF)}"
    by (rule Collect_cong) (auto simp: sector_replicate sector_meaningful_replicate)
  also have "\<dots> = (if x \<noteq> 0 \<and> x \<noteq> 0xFF then {..< 32} else {})"
    by auto
  finally show ?thesis by simp
qed

lemma Math_round_eqI:
  "of_int z \<le> x + 1 / 2 \<Longrightarrow> x + 1 / 2 < of_int z + 1 \<Longrightarrow> Math_round x = z"
  unfolding Math_round_def by (rule floor_unique)

lemma Math_round_values:
  "Math_round 0 = 0" "Math_round 100 = 100" "Math_round (100 * 32 / 32) = 100"
  "Math_round (100 * 4 / 32) = 13" "Math_round (25 / 2) = 13"
  by (rule Math_round_eqI; simp)+

subsection \<open>The identifier scans\<close>

lemma extractVIN_patterns_find:
  "extractVIN_patterns d ps =
     map_option (\<lambda>(off, len). TextDecoder_ascii (js_slice d off (off + len)))
       (List.find (\<lambda>(off, len). vin_regex_test (TextDecoder_ascii (js_slice d off (off + len)))) ps)"
  by (induction ps) (auto simp: Let_def)

lemma FrmConverter_extractVIN_None_iff:
  "FrmConverter_extractVIN d = None \<longleftrightarrow>
     (\<forall>off \<in> {0x1000, 0x1500, 0x2000}.
        \<not> vin_regex_test (TextDecoder_ascii (js_slice d off (off + 17))))"
  by (simp add: FrmConverter_extractVIN_def VIN_PATTERNS_def Let_def)

lemma FrmConverter_extractVIN_Some_iff:
  "FrmConverter_extractVIN d = Some v \<longleftrightarrow>
     (\<exists>off \<in> {0x1000, 0x1500, 0x2000}.
        v = TextDecoder_ascii (js_slice d off (off + 17)) \<and> vin_regex_test v \<and>
        (\<forall>off' \<in> {0x1000, 0x1500, 0x2000}. off' < off \<longrightarrow>
           \<not> vin_regex_test (TextDecoder_ascii (js_slice d off' (off' + 17)))))"
  by (auto simp: FrmConverter_extractVIN_def VIN_PATTERNS_def Let_def)

lemma extractVin_None_iff:
  "extractVin d = None \<longleftrightarrow>
     (\<forall>k < 256. \<not> vin_regex_test
        (Buffer_toString_ascii (js_slice d (4096 + 16 * k) (4096 + 16 * k + 17))))"
  by (auto simp: extractVin_find find_None_iff)

lemma find_upt_Some_iff:
  "List.find P [0 ..< n] = Some k \<longleftrightarrow> k < n \<and> P k \<and> (\<forall>j < k. \<not> P j)"
proof
  assume "List.find P [0 ..< n] = Some k"
  then obtain i where i: "i < length [0 ..< n]" "P ([0 ..< n] ! i)" "k = [0 ..< n] ! i"
    and m: "\<forall>j < i. \<not> P ([0 ..< n] ! j)"
    unfolding find_Some_iff by blast
  from i have ki: "k = i" and "i < n" by simp_all
  moreover have "\<not> P j" if "j < i" for j
  proof -
    have "j < n" using that \<open>i < n\<close> by simp
    with m that show ?thesis by auto
  qed
  ultimately show "k < n \<and> P k \<and> (\<forall>j < k. \<not> P j)" using i by simp
next
  assume a: "k < n \<and> P k \<and> (\<forall>j < k. \<not> P j)"
  have "k < length [0 ..< n] \<and> P ([0 ..< n] ! k) \<and> k = [0 ..< n] ! k \<and>
        (\<forall>j < k. \<not> P ([0 ..< n] ! j))"
    using a by simp
  then show "List.find P [0 ..< n] = Some k"
    unfolding find_Some_iff by blast
qed

lemma extractVin_Some_iff:
  "extractVin d = Some v \<longleftrightarrow>
     (\<exists>k < 256. v = Buffer_toString_ascii (js_slice d (4096 + 16 * k) (4096 + 16 * k + 17)) \<and>
        vin_regex_test v \<and>
        (\<forall>j < k. \<not> vin_regex_test
           (Buffer_toString_ascii (js_slice d (4096 + 16 * j) (4096 + 16 * j + 17)))))"
  unfolding extractVin_find map_option_eq_Some find_upt_Some_iff
  by auto

lemma vin_char_class_alphabet:
  "vin_char_class c \<longleftrightarrow> c \<in> set (js_str ''ABCDEFGHJKLMNPRSTUVWXYZ0123456789'')"
proof
  assume "vin_char_class c"
  then have "c = 65 \<or> c = 66 \<or> c = 67 \<or> c = 68 \<or> c = 69 \<or> c = 70 \<or> c = 71 \<or> c = 72 \<or>
      c = 74 \<or> c = 75 \<or> c = 76 \<or> c = 77 \<or> c = 78 \<or> c = 80 \<or>
      c = 82 \<or> c = 83 \<or> c = 84 \<or> c = 85 \<or> c = 86 \<or> c = 87 \<or> c = 88 \<or> c = 89 \<or> c = 90 \<or>
      c = 48 \<or> c = 49 \<or> c = 50 \<or> c = 51 \<or> c = 52 \<or> c = 53 \<or> c = 54 \<or> c = 55 \<or>
      c = 56 \<or> c = 57"
    unfolding vin_char_class_def by presburger
  then show "c \<in> set (js_str ''ABCDEFGHJKLMNPRSTUVWXYZ0123456789'')"
    by (auto simp: js_str_def)
next
  assume "c \<in> set (js_str ''ABCDEFGHJKLMNPRSTUVWXYZ0123456789'')"
  then show "vin_char_class c"
    by (auto simp: js_str_def vin_char_class_def)
qed

subsection \<open>The example images\<close>

lemma length_image_with:
  "off + length bs \<le> 32768 \<Longrightarrow> length (image_with off bs) = 32768"
  by (simp add: image_with_def)

lemma nth_image_with:
  assumes "off + length bs \<le> 32768" and "i < 32768"
  shows "image_with off bs ! i = (if off \<le> i \<and> i < off + length bs then bs ! (i - off) else 0)"
proof -
  have "image_with off bs = blit (replicate 32768 0) off bs"
    using assms(1) by (simp add: image_with_def blit_def)
  then show ?thesis using assms by (simp add: nth_blit)
qed

lemma js_slice_image_with_same:
  assumes "off + length bs \<le> 32768"
  shows "js_slice (image_with off bs) off (off + length bs) = bs"
  using assms by (intro slice_eq_listI) (simp_all add: length_image_with nth_image_with)

lemma js_slice_image_with_disjoint:
  assumes "off + length bs \<le> 32768" and "b \<le> 32768" and "b \<le> off \<or> off + length bs \<le> a"
  shows "js_slice (image_with off bs) a b = replicate (b - a) 0"
proof (rule slice_const)
  show "b \<le> length (image_with off bs)"
    using assms by (simp add: length_image_with)
next
  fix i assume "a \<le> i" "i < b"
  then have "i < 32768" "\<not> (off \<le> i \<and> i < off + length bs)"
    using assms by linarith+
  then show "image_with off bs ! i = 0"
    using nth_image_with [OF assms(1), of i] by auto
qed

lemma zero_in_window:
  assumes "off + 17 \<le> 32768" and "length bs = 17" and "a + 17 \<le> 32768" and "a \<noteq> off"
  shows "0 \<in> set (js_slice (image_with off bs) a (a + 17))"
proof -
  define w where "w = js_slice (image_with off bs) a (a + 17)"
  have lw: "length w = 17"
    using assms by (simp add: w_def js_slice_def length_image_with)
  have nw: "w ! j = image_with off bs ! (a + j)" if "j < 17" for j
    using that assms by (simp add: w_def js_slice_def length_image_with)
  show ?thesis
  proof (cases "a < off")
    case True
    then have "w ! 0 = 0"
      using assms by (simp add: nw nth_image_with)
    then show ?thesis
      unfolding w_def [symmetric] using lw by (metis nth_mem zero_less_numeral)
  next
    case False
    with assms have "off + 17 \<le> a + 16" by linarith
    then have "w ! 16 = 0"
      using assms by (simp add: nw nth_image_with)
    moreover have "16 < length w" using lw by simp
    ultimately show ?thesis
      unfolding w_def [symmetric] by (metis nth_mem)
  qed
qed

lemma zero_not_vin_TextDecoder:
  "0 \<in> set bs \<Longrightarrow> \<not> vin_regex_test (TextDecoder_ascii bs)"
proof
  assume z: "0 \<in> set bs" and t: "vin_regex_test (TextDecoder_ascii bs)"
  from z have "windows1252 0 \<in> set (TextDecoder_ascii bs)"
    by (simp add: TextDecoder_ascii_def)
  with t have "vin_char_class (windows1252 0)"
    by (simp add: vin_regex_test_def list_all_iff)
  then show False by (simp add: windows1252_def vin_char_class_def)
qed

lemma zero_not_vin_toString:
  "0 \<in> set bs \<Longrightarrow> \<not> vin_regex_test (Buffer_toString_ascii bs)"
proof
  assume z: "0 \<in> set bs" and t: "vin_regex_test (Buffer_toString_ascii bs)"
  from z have "unat (0 :: byte) mod 128 \<in> set (Buffer_toString_ascii bs)"
    unfolding Buffer_toString_ascii_def set_map by (rule imageI)
  with t have "vin_char_class (unat (0 :: byte) mod 128)"
    by (simp add: vin_regex_test_def list_all_iff)
  then show False by (simp add: vin_char_class_def)
qed

lemma length_vin_bytes [simp]: "length vin_bytes = 17"
  by (simp add: vin_bytes_def)

lemma decode_vin_bytes:
  "TextDecoder_ascii vin_bytes = js_str ''WBA12345678901234''"
  "Buffer_toString_ascii vin_bytes = js_str ''WBA12345678901234''"
  by (simp_all add: TextDecoder_ascii_def Buffer_toString_ascii_def vin_bytes_def js_str_def
      windows1252_def)

lemma vin_example_valid: "vin_regex_test (js_str ''WBA12345678901234'')"
  by (simp add: vin_regex_test_def js_str_def vin_char_class_def)

subsection \<open>The identifier field of the output\<close>

lemma FrmConverter_no_vin_field:
  assumes len: "length d = 32768" and n: "FrmConverter_extractVIN d = None"
  shows "image_bytes (FrmConverter_convertDFlashToEEPROM d) 0x10 0x21 = Some (replicate 17 0xFF)"
proof (rule FrmConverter_convert_image [OF len])
  fix e
  assume r: "FrmConverter_convertDFlashToEEPROM d =
       \<lparr> success = True, eepromData = Some e, error = None,
         vehicleData = Some (FrmConverter_extractVehicleData d) \<rparr>"
    and l: "length e = 4096"
    and v: "\<And>i. 16 \<le> i \<Longrightarrow> i < 33 \<Longrightarrow>
           e ! i = (case FrmConverter_extractVIN d of
                      None \<Rightarrow> 0xFF | Some v \<Rightarrow> of_nat (v ! (i - 16)))"
  have "e ! i = 0xFF" if "16 \<le> i" "i < 33" for i
    using v [OF that] n by simp
  then have "js_slice e 16 33 = replicate (33 - 16) 0xFF"
    using l by (intro slice_const) simp_all
  then show ?thesis by (simp add: image_bytes_def r)
qed

lemma server_no_vin_field:
  assumes len: "12288 \<le> length d" and n: "extractVin d = None"
  shows "image_bytes (convertDFlashToEEPROM d) 0x10 0x21 = Some (replicate 17 0x00)"
proof -
  from extractMileage_find [OF len] obtain m where m: "extractMileage d = Inr m" by blast
  show ?thesis
  proof (rule server_convert_image [OF m])
    fix e
    assume r: "convertDFlashToEEPROM d = \<lparr> success = True, eepromData = Some e, error = None \<rparr>"
      and l: "length e = 4096"
      and v: "\<And>i. 16 \<le> i \<Longrightarrow> i < 33 \<Longrightarrow>
           e ! i = (case extractVin d of None \<Rightarrow> 0 | Some v \<Rightarrow> of_nat (v ! (i - 16)))"
    have "e ! i = 0" if "16 \<le> i" "i < 33" for i
      using v [OF that] n by simp
    then have "js_slice e 16 33 = replicate (33 - 16) 0"
      using l by (intro slice_const) simp_all
    then show ?thesis by (simp add: image_bytes_def r)
  qed
qed

lemma FrmConverter_extractVIN_cong:
  assumes "\<forall>off \<in> {0x1000, 0x1500, 0x2000}. js_slice d off (off + 17) = js_slice d' off (off + 17)"
  shows "FrmConverter_extractVIN d = FrmConverter_extractVIN d'"
  using assms by (simp add: FrmConverter_extractVIN_def VIN_PATTERNS_def Let_def)

lemma extractVin_cong:
  assumes "\<forall>k < 256. js_slice d (4096 + 16 * k) (4096 + 16 * k + 17)
                      = js_slice d' (4096 + 16 * k) (4096 + 16 * k + 17)"
  shows "extractVin d = extractVin d'"
proof (cases "extractVin d")
  case None
  then have "extractVin d' = None"
    using assms unfolding extractVin_None_iff by simp
  with None show ?thesis by simp
next
  case (Some v)
  then have "extractVin d' = Some v"
    using assms unfolding extractVin_Some_iff by (auto simp: less_trans)
  with Some show ?thesis by simp
qed

subsection \<open>The odometer scans\<close>

lemma find_sorted_Some_iff:
  fixes xs :: "nat list"
  assumes "sorted_wrt (<) xs"
  shows "List.find P xs = Some x \<longleftrightarrow>
           x \<in> set xs \<and> P x \<and> (\<forall>y \<in> set xs. y < x \<longrightarrow> \<not> P y)"
  using assms
proof (induction xs)
  case Nil
  then show ?case by simp
next
  case (Cons a xs)
  then have gt: "\<forall>y \<in> set xs. a < y" and s: "sorted_wrt (<) xs" by simp_all
  show ?case
  proof (cases "P a")
    case True
    have "x = a" if "x \<in> set xs" "\<forall>y \<in> set (a # xs). y < x \<longrightarrow> \<not> P y"
      using that gt True by auto
    with True gt show ?thesis by (auto dest: less_asym)
  next
    case False
    with Cons.IH [OF s] gt show ?thesis by auto
  qed
qed

lemma extractMileage_offsets_find:
  assumes "\<forall>off \<in> set os. off + 4 \<le> length d"
  shows "extractMileage_offsets d os =
     map_option
       (\<lambda>off. if 0 < uint32_of True (js_slice d off (off + 4)) \<and>
                  uint32_of True (js_slice d off (off + 4)) < 1000000
               then uint32_of True (js_slice d off (off + 4))
               else uint32_of False (js_slice d off (off + 4)))
       (List.find
          (\<lambda>off. (0 < uint32_of True (js_slice d off (off + 4)) \<and>
                   uint32_of True (js_slice d off (off + 4)) < 1000000) \<or>
                  (0 < uint32_of False (js_slice d off (off + 4)) \<and>
                   uint32_of False (js_slice d off (off + 4)) < 1000000)) os)"
  using assms by (induction os) (simp_all add: Let_def)

lemma first_accept_iff:
  "(\<exists>z. (z \<in> S \<and> (p z \<or> q z) \<and> (\<forall>y \<in> S. y < z \<longrightarrow> \<not> (p y \<or> q y))) \<and>
        (if p z then l z else b z) = m) \<longleftrightarrow>
   (\<exists>z \<in> S. ((p z \<and> m = l z) \<or> (\<not> p z \<and> q z \<and> m = b z)) \<and>
        (\<forall>y \<in> S. y < z \<longrightarrow> \<not> p y \<and> \<not> q y))"
  by (auto split: if_splits)

lemma MILEAGE_OFFSETS_set: "set MILEAGE_OFFSETS = {0x2100, 0x2200, 0x2300, 0x2400}"
  by (simp add: MILEAGE_OFFSETS_def)

lemma MILEAGE_OFFSETS_sorted: "sorted_wrt (<) MILEAGE_OFFSETS"
  by (simp add: MILEAGE_OFFSETS_def)

lemma FrmConverter_extractMileage_None_iff:
  assumes "length d = 32768"
  shows "FrmConverter_extractMileage d = None \<longleftrightarrow>
     (\<forall>off \<in> {0x2100, 0x2200, 0x2300, 0x2400}.
        \<not> (0 < uint32_of True (js_slice d off (off + 4)) \<and>
           uint32_of True (js_slice d off (off + 4)) < 1000000) \<and>
        \<not> (0 < uint32_of False (js_slice d off (off + 4)) \<and>
           uint32_of False (js_slice d off (off + 4)) < 1000000))"
proof -
  have g: "\<forall>off \<in> set MILEAGE_OFFSETS. off + 4 \<le> length d"
    using assms by (simp add: MILEAGE_OFFSETS_def)
  show ?thesis
    unfolding FrmConverter_extractMileage_def extractMileage_offsets_find [OF g]
      map_option_is_None find_None_iff MILEAGE_OFFSETS_set
    by blast
qed

lemma FrmConverter_extractMileage_Some_iff:
  assumes "length d = 32768"
  shows "FrmConverter_extractMileage d = Some m \<longleftrightarrow>
     (\<exists>off \<in> {0x2100, 0x2200, 0x2300, 0x2400}.
        (((0 < uint32_of True (js_slice d off (off + 4)) \<and>
           uint32_of True (js_slice d off (off + 4)) < 1000000) \<and>
          m = uint32_of True (js_slice d off (off + 4))) \<or>
         (\<not> (0 < uint32_of True (js_slice d off (off + 4)) \<and>
             uint32_of True (js_slice d off (off + 4)) < 1000000) \<and>
          (0 < uint32_of False (js_slice d off (off + 4)) \<and>
           uint32_of False (js_slice d off (off + 4)) < 1000000) \<and>
          m = uint32_of False (js_slice d off (off + 4)))) \<and>
        (\<forall>off' \<in> {0x2100, 0x2200, 0x2300, 0x2400}. off' < off \<longrightarrow>
           \<not> (0 < uint32_of True (js_slice d off' (off' + 4)) \<and>
              uint32_of True (js_slice d off' (off' + 4)) < 1000000) \<and>
           \<not> (0 < uint32_of False (js_slice d off' (off' + 4)) \<and>
              uint32_of False (js_slice d off' (off' + 4)) < 1000000)))"
proof -
  have g: "\<forall>off \<in> set MILEAGE_OFFSETS. off + 4 \<le> length d"
    using assms by (simp add: MILEAGE_OFFSETS_def)
  show ?thesis
    unfolding FrmConverter_extractMileage_def extractMileage_offsets_find [OF g]
      map_option_eq_Some find_sorted_Some_iff [OF MILEAGE_OFFSETS_sorted] MILEAGE_OFFSETS_set
    by (rule first_accept_iff)
qed

lemma extractMileage_None_iff:
  assumes "12288 \<le> length d"
  shows "extractMileage d = Inr None \<longleftrightarrow>
     (\<forall>k < 1024. \<not> (0 < uint32_of True (js_slice d (8192 + 4 * k) (8192 + 4 * k + 4)) \<and>
                     uint32_of True (js_slice d (8192 + 4 * k) (8192 + 4 * k + 4)) < 1000000))"
  unfolding extractMileage_find [OF assms] by (auto simp: find_None_iff)

lemma extractMileage_Some_iff:
  assumes "12288 \<le> length d"
  shows "extractMileage d = Inr (Some m) \<longleftrightarrow>
     (\<exists>k < 1024. m = uint32_of True (js_slice d (8192 + 4 * k) (8192 + 4 * k + 4)) \<and>
        0 < m \<and> m < 1000000 \<and>
        (\<forall>j < k. \<not> (0 < uint32_of True (js_slice d (8192 + 4 * j) (8192 + 4 * j + 4)) \<and>
                     uint32_of True (js_slice d (8192 + 4 * j) (8192 + 4 * j + 4)) < 1000000)))"
  unfolding extractMileage_find [OF assms] sum.inject map_option_eq_Some find_upt_Some_iff
  by auto

lemma FrmConverter_mileage_field:
  assumes len: "length d = 32768" and m: "FrmConverter_extractMileage d = Some m"
  shows "image_bytes (FrmConverter_convertDFlashToEEPROM d) 0x30 0x34 = Some (le_bytes32 m)"
proof (rule FrmConverter_convert_image [OF len])
  fix e
  assume r: "FrmConverter_convertDFlashToEEPROM d =
       \<lparr> success = True, eepromData = Some e, error = None,
         vehicleData = Some (FrmConverter_extractVehicleData d) \<rparr>"
    and l: "length e = 4096"
    and v: "\<And>i. 48 \<le> i \<Longrightarrow> i < 52 \<Longrightarrow>
           e ! i = (case FrmConverter_extractMileage d of
                      None \<Rightarrow> 0xFF | Some m \<Rightarrow> le_bytes32 m ! (i - 48))"
  have "e ! (48 + i) = le_bytes32 m ! i" if "i < 4" for i
    using v [of "48 + i"] that m by simp
  then have "js_slice e 48 52 = le_bytes32 m"
    using l by (intro slice_eq_listI) simp_all
  then show ?thesis by (simp add: image_bytes_def r)
qed

lemma server_mileage_field:
  assumes m: "extractMileage d = Inr (Some m)"
  shows "image_bytes (convertDFlashToEEPROM d) 0x30 0x34 = Some (le_bytes32 m)"
proof (rule server_convert_image [OF m])
  fix e
  assume r: "convertDFlashToEEPROM d = \<lparr> success = True, eepromData = Some e, error = None \<rparr>"
    and l: "length e = 4096"
    and v: "\<And>i. 48 \<le> i \<Longrightarrow> i < 52 \<Longrightarrow>
           e ! i = (case Some m of None \<Rightarrow> 0 | Some m \<Rightarrow> le_bytes32 m ! (i - 48))"
  have "e ! (48 + i) = le_bytes32 m ! i" if "i < 4" for i
    using v [of "48 + i"] that by simp
  then have "js_slice e 48 52 = le_bytes32 m"
    using l by (intro slice_eq_listI) simp_all
  then show ?thesis by (simp add: image_bytes_def r)
qed

lemma uint32_of_zero: "uint32_of le (replicate 4 0) = 0"
  by (simp add: uint32_of_def replicate_4)

lemma odometer_window_same:
  "off + 4 \<le> 32768 \<Longrightarrow> length bs = 4 \<Longrightarrow>
     js_slice (image_with off bs) off (off + 4) = bs"
  using js_slice_image_with_same [of off bs] by simp

lemma odometer_window_zero:
  "off + 4 \<le> 32768 \<Longrightarrow> length bs = 4 \<Longrightarrow> a + 4 \<le> 32768 \<Longrightarrow>
     a + 4 \<le> off \<or> off + 4 \<le> a \<Longrightarrow>
     uint32_of le (js_slice (image_with off bs) a (a + 4)) = 0"
  using js_slice_image_with_disjoint [of off bs "a + 4" a] by (simp add: uint32_of_zero)

subsection \<open>Model and year\<close>

lemma FrmConverter_extractVIN_at_0x1000:
  assumes "length bs = 17" and "vin_regex_test (TextDecoder_ascii bs)"
  shows "FrmConverter_extractVIN (image_with 0x1000 bs) = Some (TextDecoder_ascii bs)"
proof -
  have "js_slice (image_with 0x1000 bs) 0x1000 (0x1000 + 17) = bs"
    using js_slice_image_with_same [of "0x1000" bs] assms(1) by simp
  then show ?thesis
    using assms(2) by (simp add: FrmConverter_extractVIN_def VIN_PATTERNS_def Let_def)
qed

lemma extractVin_at_0x1000:
  assumes "length bs = 17" and "vin_regex_test (Buffer_toString_ascii bs)"
  shows "extractVin (image_with 0x1000 bs) = Some (Buffer_toString_ascii bs)"
proof -
  have "js_slice (image_with 0x1000 bs) 4096 (4096 + 17) = bs"
    using js_slice_image_with_same [of "0x1000" bs] assms(1) by simp
  then show ?thesis
    using assms(2) by (simp add: extractVin_def extractVin_from.simps [of _ 4096])
qed

lemma decode_vin_bytes_unmapped:
  "TextDecoder_ascii vin_bytes_unmapped = js_str ''ZZZ123456G8901234''"
  "Buffer_toString_ascii vin_bytes_unmapped = js_str ''ZZZ123456G8901234''"
  by (simp_all add: TextDecoder_ascii_def Buffer_toString_ascii_def vin_bytes_unmapped_def
      js_str_def windows1252_def)

lemma vin_unmapped_valid: "vin_regex_test (js_str ''ZZZ123456G8901234'')"
  by (simp add: vin_regex_test_def js_str_def vin_char_class_def)

lemma length_vin_bytes_unmapped [simp]: "length vin_bytes_unmapped = 17"
  by (simp add: vin_bytes_unmapped_def)

lemma extract_examples:
  "FrmConverter_extractVIN (image_with 0x1000 vin_bytes) = Some (js_str ''WBA12345678901234'')"
  "extractVin (image_with 0x1000 vin_bytes) = Some (js_str ''WBA12345678901234'')"
  "FrmConverter_extractVIN (image_with 0x1000 vin_bytes_unmapped) = Some (js_str ''ZZZ123456G8901234'')"
  "extractVin (image_with 0x1000 vin_bytes_unmapped) = Some (js_str ''ZZZ123456G8901234'')"
proof -
  show "FrmConverter_extractVIN (image_with 0x1000 vin_bytes) = Some (js_str ''WBA12345678901234'')"
    using FrmConverter_extractVIN_at_0x1000 [of vin_bytes]
    by (simp only: decode_vin_bytes vin_example_valid length_vin_bytes)
  show "extractVin (image_with 0x1000 vin_bytes) = Some (js_str ''WBA12345678901234'')"
    using extractVin_at_0x1000 [of vin_bytes]
    by (simp only: decode_vin_bytes vin_example_valid length_vin_bytes)
  show "FrmConverter_extractVIN (image_with 0x1000 vin_bytes_unmapped)
          = Some (js_str ''ZZZ123456G8901234'')"
    using FrmConverter_extractVIN_at_0x1000 [of vin_bytes_unmapped]
    by (simp only: decode_vin_bytes_unmapped vin_unmapped_valid length_vin_bytes_unmapped)
  show "extractVin (image_with 0x1000 vin_bytes_unmapped) = Some (js_str ''ZZZ123456G8901234'')"
    using extractVin_at_0x1000 [of vin_bytes_unmapped]
    by (simp only: decode_vin_bytes_unmapped vin_unmapped_valid length_vin_bytes_unmapped)
qed

lemma js_slice_prefix: "js_slice v 0 3 = take 3 v"
  by (simp add: js_slice_def)

lemma js_slice_charAt: "9 < length v \<Longrightarrow> js_slice v 9 10 = [v ! 9]"
  using slice_single [of 9 v] by simp

lemma yearMap_nonzero: "map_of yearMap k = Some y \<Longrightarrow> y \<noteq> 0"
  by (auto simp: yearMap_def split: if_splits)

lemma yearMap_dom: "map_of yearMap [c] = None \<longleftrightarrow> c \<notin> set (js_str ''123456789ABCDEF'')"
  by (auto simp: yearMap_def js_str_def)

lemma modelMap_dom:
  "map_of modelMap k = None \<longleftrightarrow>
     k \<notin> {js_str ''WBA'', js_str ''WBY'', js_str ''5UX'', js_str ''WBX'', js_str ''WBS'',
           js_str ''4US''}"
  by (auto simp: modelMap_def)

subsection \<open>Searching for the markers\<close>

lemma js_includes_prefix: "js_includes (needle @ rest) needle"
proof (cases "needle @ rest")
  case Nil
  then show ?thesis by simp
next
  case (Cons x xs)
  have "take (length needle) (needle @ rest) = needle" by simp
  then have "take (length needle) (x # xs) = needle" by (simp only: Cons)
  then show ?thesis by (simp only: Cons js_includes.simps simp_thms)
qed

lemma js_includes_set: "js_includes hay needle \<Longrightarrow> set needle \<subseteq> set hay"
proof (induction hay)
  case Nil
  then show ?case by simp
next
  case (Cons x xs)
  from Cons.prems have "take (length needle) (x # xs) = needle \<or> js_includes xs needle"
    by simp
  then show ?case
  proof
    assume "take (length needle) (x # xs) = needle"
    then have "set needle = set (take (length needle) (x # xs))" by simp
    also have "\<dots> \<subseteq> set (x # xs)" by (rule set_take_subset)
    finally show ?thesis .
  next
    assume "js_includes xs needle"
    with Cons.IH show ?thesis by auto
  qed
qed

lemma marker_bytes:
  "Buffer_from_ascii (js_str ''XEQ384'') = [0x58, 0x45, 0x51, 0x33, 0x38, 0x34]"
  "Buffer_from_ascii (js_str ''XET512'') = [0x58, 0x45, 0x54, 0x35, 0x31, 0x32]"
  by (simp_all add: Buffer_from_ascii_def js_str_def)

lemma marker_window:
  assumes "off + 16 \<le> 32768" and "length bs = 6"
  shows "js_slice (image_with off bs) off (off + 16) = bs @ replicate 10 0"
proof -
  have "js_slice (image_with off bs) off (off + 6) = bs"
    using js_slice_image_with_same [of off bs] assms by simp
  moreover have "js_slice (image_with off bs) (off + 6) (off + 16) = replicate 10 0"
    using js_slice_image_with_disjoint [of off bs "off + 16" "off + 6"] assms by simp
  ultimately show ?thesis
    using slice_split [of off "off + 6" "off + 16" "image_with off bs"] by simp
qed

lemma zero_window:
  assumes "off + length bs \<le> 32768" and "a + 16 \<le> 32768"
    and "a + 16 \<le> off \<or> off + length bs \<le> a"
  shows "js_slice (image_with off bs) a (a + 16) = replicate 16 0"
  using js_slice_image_with_disjoint [of off bs "a + 16" a] assms by simp

lemma no_marker_in_zeros:
  "\<not> js_includes (replicate n 0) (Buffer_from_ascii (js_str ''XEQ384''))"
  "\<not> js_includes (replicate n 0) (Buffer_from_ascii (js_str ''XET512''))"
  by (auto simp: marker_bytes dest!: js_includes_set)

lemma no_marker_in_decoded_zeros:
  "\<not> js_includes (TextDecoder_ascii (replicate n 0)) (js_str ''XEQ384'')"
  "\<not> js_includes (TextDecoder_ascii (replicate n 0)) (js_str ''XET512'')"
  "\<not> js_includes (TextDecoder_ascii (replicate n 0)) (js_str ''FRM2'')"
  by (auto simp: TextDecoder_ascii_def js_str_def windows1252_def dest!: js_includes_set)

section \<open>Claims\<close>

subsection \<open>C2: the checksum of a produced image\<close>

text \<open>
  Claim C2. Every image that a conversion produces has 4096 bytes, and recomputing the
  additive checksum (the sum of the bytes at the offsets 0 to 4091 as unsigned integers,
  modulo \<open>2^32\<close>) gives the value stored as a little-endian unsigned 32-bit number in
  the last four bytes. This holds for the class and for the server.
\<close>

theorem checksum_round_trip:
  "(eepromData (FrmConverter_convertDFlashToEEPROM d) = Some e \<longrightarrow>
      length e = 4096 \<and> additive_checksum e = stored_checksum e) \<and>
   (eepromData (convertDFlashToEEPROM d) = Some e \<longrightarrow>
      length e = 4096 \<and> additive_checksum e = stored_checksum e)"
proof (rule conjI; rule impI)
  assume *: "eepromData (FrmConverter_convertDFlashToEEPROM d) = Some e"
  have len: "length d = 32768"
  proof (rule ccontr)
    assume "length d \<noteq> 32768"
    with * show False
      by (simp add: FrmConverter_convertDFlashToEEPROM_def DFLASH_SIZE_def)
  qed
  show "length e = 4096 \<and> additive_checksum e = stored_checksum e"
  proof (rule FrmConverter_convert_image [OF len])
    fix e'
    assume r: "FrmConverter_convertDFlashToEEPROM d =
         \<lparr> success = True, eepromData = Some e', error = None,
           vehicleData = Some (FrmConverter_extractVehicleData d) \<rparr>"
      and l: "length e' = 4096"
      and c: "drop 4092 e' = le_bytes32 (nat (sum_list (map uint (take 4092 e'))))"
    from * r have "e' = e" by simp
    with l c show ?thesis by (simp add: checksum_ok)
  qed
next
  assume *: "eepromData (convertDFlashToEEPROM d) = Some e"
  obtain mil where m: "extractMileage d = Inr mil"
  proof (cases "extractMileage d")
    case (Inl err)
    with * show ?thesis by (simp add: server_convert_failure)
  next
    case (Inr mil)
    then show ?thesis by (rule that)
  qed
  show "length e = 4096 \<and> additive_checksum e = stored_checksum e"
  proof (rule server_convert_image [OF m])
    fix e'
    assume r: "convertDFlashToEEPROM d =
                 \<lparr> success = True, eepromData = Some e', error = None \<rparr>"
      and l: "length e' = 4096"
      and c: "drop 4092 e' = le_bytes32 (nat (sum_list (map uint (take 4092 e'))))"
    from * r have "e' = e" by simp
    with l c show ?thesis by (simp add: checksum_ok)
  qed
qed

text \<open>
  The image of 32768 bytes 0xFF: the class stores the checksum 1039907 (the header and
  4076 bytes 0xFF), the server 9161 (the sum of the characters of the serialized
  configuration).
\<close>

theorem checksum_round_trip_witness:
  "map_option stored_checksum
     (eepromData (FrmConverter_convertDFlashToEEPROM (replicate 32768 0xFF))) = Some 1039907 \<and>
   map_option additive_checksum
     (eepromData (FrmConverter_convertDFlashToEEPROM (replicate 32768 0xFF))) = Some 1039907 \<and>
   map_option stored_checksum
     (eepromData (convertDFlashToEEPROM (replicate 32768 0xFF))) = Some 9161 \<and>
   map_option additive_checksum
     (eepromData (convertDFlashToEEPROM (replicate 32768 0xFF))) = Some 9161"
proof -
  obtain e where e: "eepromData (FrmConverter_convertDFlashToEEPROM (replicate 32768 0xFF)) = Some e"
    and t: "js_slice e 0 4092 = eeprom_header @ replicate 4076 0xFF"
    using FrmConverter_image_ff by (auto simp: image_bytes_def)
  obtain e' where e': "eepromData (convertDFlashToEEPROM (replicate 32768 0xFF)) = Some e'"
    and t': "js_slice e' 0 4092 = replicate 256 0 @
       [123, 34, 120, 101, 110, 111, 110, 72, 101, 97, 100, 108, 105, 103, 104, 116, 115, 34, 58,
        116, 114, 117, 101, 44, 34, 97, 110, 103, 101, 108, 69, 121, 101, 115, 34, 58, 116, 114,
        117, 101, 44, 34, 97, 117, 116, 111, 87, 105, 112, 101, 114, 115, 34, 58, 116, 114, 117,
        101, 44, 34, 99, 111, 109, 102, 111, 114, 116, 65, 99, 99, 101, 115, 115, 34, 58, 116,
        114, 117, 101, 44, 34, 102, 111, 108, 108, 111, 119, 77, 101, 72, 111, 109, 101, 34, 58,
        50, 53, 53, 125] @ replicate 3737 0"
    using server_image_ff by (auto simp: image_bytes_def)
  have c: "length e = 4096 \<and> additive_checksum e = stored_checksum e"
    using checksum_round_trip [of "replicate 32768 0xFF" e] e by simp
  have c': "length e' = 4096 \<and> additive_checksum e' = stored_checksum e'"
    using checksum_round_trip [of "replicate 32768 0xFF" e'] e' by simp
  have a: "additive_checksum e = 1039907"
    using c t by (simp add: additive_checksum_def take_as_slice eeprom_header_def sum_list_replicate)
  have a': "additive_checksum e' = 9161"
    using c' t' by (simp add: additive_checksum_def take_as_slice sum_list_replicate)
  show ?thesis using a a' c c' e e' by simp
qed

subsection \<open>C4: the header\<close>

text \<open>
  Claim C4, for the class \<open>FrmConverter\<close>. For every image of 32768 bytes the
  conversion writes the fixed header of 16 bytes first, onto the buffer that holds only the
  fill value, and the produced image starts with these 16 bytes.
\<close>

theorem header_written_first:
  "length d = 32768 \<Longrightarrow>
     writeEEPROMHeader (replicate EEPROM_SIZE 0xFF) =
       Inr ([0xAA, 0x55, 0xFF, 0x00, 0x01, 0x00, 0x00, 0x00,
             0x00, 0x10, 0x00, 0x00, 0x00, 0x00, 0x00, 0x00] @ replicate 4080 0xFF) \<and>
     image_bytes (FrmConverter_convertDFlashToEEPROM d) 0 16 =
       Some [0xAA, 0x55, 0xFF, 0x00, 0x01, 0x00, 0x00, 0x00,
             0x00, 0x10, 0x00, 0x00, 0x00, 0x00, 0x00, 0x00]"
proof -
  assume len: "length d = 32768"
  have "image_bytes (FrmConverter_convertDFlashToEEPROM d) 0 16 = Some eeprom_header"
  proof (rule FrmConverter_convert_image [OF len])
    fix e
    assume r: "FrmConverter_convertDFlashToEEPROM d =
         \<lparr> success = True, eepromData = Some e, error = None,
           vehicleData = Some (FrmConverter_extractVehicleData d) \<rparr>"
      and l: "length e = 4096"
      and h: "\<And>i. i < 16 \<Longrightarrow> e ! i = eeprom_header ! i"
    have "js_slice e 0 16 = eeprom_header"
      using l h by (intro slice_eq_listI) simp_all
    then show ?thesis by (simp add: image_bytes_def r)
  qed
  then show ?thesis
    using writeEEPROMHeader_fresh by (simp add: eeprom_header_def)
qed

text \<open>The image of 32768 bytes 0x42.\<close>

theorem header_written_first_witness:
  "length (replicate 32768 (0x42 :: byte)) = 32768 \<and>
   image_bytes (FrmConverter_convertDFlashToEEPROM (replicate 32768 0x42)) 0 16 =
       Some [0xAA, 0x55, 0xFF, 0x00, 0x01, 0x00, 0x00, 0x00,
             0x00, 0x10, 0x00, 0x00, 0x00, 0x00, 0x00, 0x00]"
  using header_written_first [of "replicate 32768 0x42"] by simp

text \<open>
  The conversion of the server writes no header: for the image of 32768 bytes 0xFF the
  first 16 bytes of its output are the zeros of \<open>Buffer.alloc\<close>.
\<close>

theorem server_writes_no_header:
  "image_bytes (convertDFlashToEEPROM (replicate 32768 0xFF)) 0 16 = Some (replicate 16 0x00) \<and>
   image_bytes (convertDFlashToEEPROM (replicate 32768 0xFF)) 0 16 \<noteq>
     Some [0xAA, 0x55, 0xFF, 0x00, 0x01, 0x00, 0x00, 0x00,
           0x00, 0x10, 0x00, 0x00, 0x00, 0x00, 0x00, 0x00]"
proof -
  have "image_bytes (convertDFlashToEEPROM (replicate 32768 0xFF)) 0 16 = Some (replicate 16 0x00)"
    using image_bytes_sub [OF server_image_ff, of 16 0] by (simp add: js_slice_def)
  moreover have "replicate 16 (0x00 :: byte) \<noteq>
     [0xAA, 0x55, 0xFF, 0x00, 0x01, 0x00, 0x00, 0x00,
      0x00, 0x10, 0x00, 0x00, 0x00, 0x00, 0x00, 0x00]"
    by (simp add: numeral_eq_Suc)
  ultimately show ?thesis by simp
qed

subsection \<open>C3: the fill value\<close>

text \<open>
  Claim C3, for the class \<open>FrmConverter\<close>. A successful conversion yields 4096 bytes,
  and every byte before the checksum that lies outside the header, outside the identifier
  field (when an identifier was found), outside the odometer field (when an odometer value
  was found) and outside the four configuration bytes at 0x100 is the fill value 0xFF. An
  absent identifier leaves 0xFF at the offsets 0x10 to 0x20, an absent odometer value
  leaves 0xFF at the offsets 0x30 to 0x33.
\<close>

theorem unwritten_bytes_keep_fill:
  "length d = 32768 \<Longrightarrow>
     map_option length (eepromData (FrmConverter_convertDFlashToEEPROM d)) = Some 4096 \<and>
     (16 \<le> i \<and> i < 4092 \<and> (i < 33 \<longrightarrow> FrmConverter_extractVIN d = None) \<and>
      (48 \<le> i \<and> i < 52 \<longrightarrow> FrmConverter_extractMileage d = None) \<and>
      \<not> (256 \<le> i \<and> i < 260) \<longrightarrow>
        image_bytes (FrmConverter_convertDFlashToEEPROM d) i (Suc i) = Some [0xFF]) \<and>
     (FrmConverter_extractVIN d = None \<longrightarrow>
        image_bytes (FrmConverter_convertDFlashToEEPROM d) 0x10 0x21 = Some (replicate 17 0xFF)) \<and>
     (FrmConverter_extractMileage d = None \<longrightarrow>
        image_bytes (FrmConverter_convertDFlashToEEPROM d) 0x30 0x34 = Some (replicate 4 0xFF))"
proof -
  assume len: "length d = 32768"
  show ?thesis
  proof (rule FrmConverter_convert_image [OF len])
    fix e
    assume r: "FrmConverter_convertDFlashToEEPROM d =
         \<lparr> success = True, eepromData = Some e, error = None,
           vehicleData = Some (FrmConverter_extractVehicleData d) \<rparr>"
      and l: "length e = 4096"
      and f: "\<And>i. i < 4092 \<Longrightarrow> 16 \<le> i \<Longrightarrow>
            \<not> i < 33 \<or> FrmConverter_extractVIN d = None
            \<Longrightarrow> \<not> (48 \<le> i \<and> i < 52) \<or> FrmConverter_extractMileage d = None
            \<Longrightarrow> \<not> (256 \<le> i \<and> i < 260) \<Longrightarrow> e ! i = 0xFF"
    have a: "map_option length (eepromData (FrmConverter_convertDFlashToEEPROM d)) = Some 4096"
      by (simp add: r l)
    have b: "image_bytes (FrmConverter_convertDFlashToEEPROM d) i (Suc i) = Some [0xFF]"
      if "16 \<le> i" "i < 4092" "i < 33 \<longrightarrow> FrmConverter_extractVIN d = None"
         "48 \<le> i \<and> i < 52 \<longrightarrow> FrmConverter_extractMileage d = None"
         "\<not> (256 \<le> i \<and> i < 260)"
    proof -
      have "e ! i = 0xFF" using that by (intro f) auto
      moreover have "i < length e" using that l by simp
      ultimately show ?thesis by (simp add: image_bytes_def r slice_single)
    qed
    have c: "image_bytes (FrmConverter_convertDFlashToEEPROM d) 0x10 0x21 = Some (replicate 17 0xFF)"
      if n: "FrmConverter_extractVIN d = None"
    proof -
      have "e ! i = 0xFF" if "16 \<le> i" "i < 33" for i
        using that n by (intro f) auto
      then have "js_slice e 16 33 = replicate (33 - 16) 0xFF"
        using l by (intro slice_const) simp_all
      then show ?thesis by (simp add: image_bytes_def r)
    qed
    have d: "image_bytes (FrmConverter_convertDFlashToEEPROM d) 0x30 0x34 = Some (replicate 4 0xFF)"
      if n: "FrmConverter_extractMileage d = None"
    proof -
      have "e ! i = 0xFF" if "48 \<le> i" "i < 52" for i
        using that n by (intro f) auto
      then have "js_slice e 48 52 = replicate (52 - 48) 0xFF"
        using l by (intro slice_const) simp_all
      then show ?thesis by (simp add: image_bytes_def r)
    qed
    show ?thesis using a b c d by blast
  qed
qed

text \<open>The image of 32768 bytes 0xFF holds no identifier and no plausible odometer value.\<close>

theorem unwritten_bytes_keep_fill_witness:
  "length (replicate 32768 (0xFF :: byte)) = 32768 \<and>
   FrmConverter_extractVIN (replicate 32768 0xFF) = None \<and>
   FrmConverter_extractMileage (replicate 32768 0xFF) = None \<and>
   image_bytes (FrmConverter_convertDFlashToEEPROM (replicate 32768 0xFF)) 64 65 = Some [0xFF] \<and>
   image_bytes (FrmConverter_convertDFlashToEEPROM (replicate 32768 0xFF)) 0x10 0x21 =
     Some (replicate 17 0xFF) \<and>
   image_bytes (FrmConverter_convertDFlashToEEPROM (replicate 32768 0xFF)) 0x30 0x34 =
     Some (replicate 4 0xFF)"
  using unwritten_bytes_keep_fill [of "replicate 32768 0xFF" 64]
  by (simp add: FrmConverter_extractVIN_ff FrmConverter_extractMileage_ff)

text \<open>
  The conversion of the server starts from \<open>Buffer.alloc(4096)\<close>, which is filled
  with zeros: for the image of 32768 bytes 0xFF neither field is written, and the bytes of
  both fields and the byte at offset 64 are 0x00.
\<close>

theorem server_fill_is_zero:
  "extractVin (replicate 32768 0xFF) = None \<and>
   extractMileage (replicate 32768 0xFF) = Inr None \<and>
   image_bytes (convertDFlashToEEPROM (replicate 32768 0xFF)) 0x10 0x21 = Some (replicate 17 0x00) \<and>
   image_bytes (convertDFlashToEEPROM (replicate 32768 0xFF)) 0x30 0x34 = Some (replicate 4 0x00) \<and>
   image_bytes (convertDFlashToEEPROM (replicate 32768 0xFF)) 64 65 = Some [0x00]"
  using image_bytes_sub [OF server_image_ff, of 33 16]
    image_bytes_sub [OF server_image_ff, of 52 48]
    image_bytes_sub [OF server_image_ff, of 65 64]
  by (simp add: js_slice_def extractVin_ff extractMileage_ff)

subsection \<open>C5: the corruption report\<close>

text \<open>
  Claim C5. For every image of 32768 bytes both analyzers report 32 sectors, as the number
  of recoverable sectors the number of the 32 sectors of 1024 bytes that are neither all
  0x00 nor all 0xFF (at most 32), and as the corruption level
  \<open>Math.round(100 * recoverable / 32)\<close>. The image of 32768 bytes 0xFF has level 0,
  the image of 32768 bytes 0x42 has level 100.
\<close>

theorem analyze_report:
  "(length d = 32768 \<longrightarrow>
      card {k. k < 32 \<and> sector_meaningful (js_slice d (k * 1024) (k * 1024 + 1024))} \<le> 32 \<and>
      FrmConverter_analyzeDFlashCorruption d =
        \<lparr> corruptionLevel = Some (Math_round (100 * of_nat
              (card {k. k < 32 \<and> sector_meaningful (js_slice d (k * 1024) (k * 1024 + 1024))}) / 32)),
          recoverableSectors =
              card {k. k < 32 \<and> sector_meaningful (js_slice d (k * 1024) (k * 1024 + 1024))},
          totalSectors = 32 \<rparr> \<and>
      map_sum id totalSectors (analyzeDFlash d) = Inr 32 \<and>
      map_sum id recoverableSectors (analyzeDFlash d) =
        Inr (card {k. k < 32 \<and> sector_meaningful (js_slice d (k * 1024) (k * 1024 + 1024))}) \<and>
      map_sum id corruptionLevel (analyzeDFlash d) =
        Inr (Some (Math_round (100 * of_nat
              (card {k. k < 32 \<and> sector_meaningful (js_slice d (k * 1024) (k * 1024 + 1024))}) / 32)))) \<and>
   corruptionLevel (FrmConverter_analyzeDFlashCorruption (replicate 32768 0xFF)) = Some 0 \<and>
   corruptionLevel (FrmConverter_analyzeDFlashCorruption (replicate 32768 0x42)) = Some 100 \<and>
   map_sum id corruptionLevel (analyzeDFlash (replicate 32768 0xFF)) = Inr (Some 0) \<and>
   map_sum id corruptionLevel (analyzeDFlash (replicate 32768 0x42)) = Inr (Some 100)"
proof -
  have gen: "map_sum id totalSectors (analyzeDFlash d) = Inr 32 \<and>
      map_sum id recoverableSectors (analyzeDFlash d) =
        Inr (card {k. k < 32 \<and> sector_meaningful (js_slice d (k * 1024) (k * 1024 + 1024))}) \<and>
      map_sum id corruptionLevel (analyzeDFlash d) =
        Inr (Some (Math_round (100 * of_nat
              (card {k. k < 32 \<and> sector_meaningful (js_slice d (k * 1024) (k * 1024 + 1024))}) / 32)))"
    if "length d = 32768" for d
  proof -
    from analyzeDFlash_32768 [OF that] obtain vd where
      "analyzeDFlash d =
         Inr \<lparr> corruptionLevel = corruptionLevel (analyzeCorruption d),
               recoverableSectors = recoverableSectors (analyzeCorruption d),
               totalSectors = 32,
               analysisVehicleData = vd,
               configurationData = extractConfigurationData d \<rparr>" ..
    then show ?thesis by (simp add: analyzeCorruption_32768 [OF that])
  qed
  have l: "length (replicate 32768 x) = 32768" for x :: byte by simp
  have c1: "corruptionLevel (FrmConverter_analyzeDFlashCorruption (replicate 32768 0xFF)) = Some 0"
    by (simp add: FrmConverter_analyze_32768 [OF l] card_sectors_replicate Math_round_values)
  have c2: "corruptionLevel (FrmConverter_analyzeDFlashCorruption (replicate 32768 0x42)) = Some 100"
    by (simp add: FrmConverter_analyze_32768 [OF l] card_sectors_replicate Math_round_values)
  have c3: "map_sum id corruptionLevel (analyzeDFlash (replicate 32768 0xFF)) = Inr (Some 0)"
    using gen [of "replicate 32768 0xFF"] by (simp add: card_sectors_replicate Math_round_values)
  have c4: "map_sum id corruptionLevel (analyzeDFlash (replicate 32768 0x42)) = Inr (Some 100)"
    using gen [of "replicate 32768 0x42"] by (simp add: card_sectors_replicate Math_round_values)
  have main: "length d = 32768 \<longrightarrow>
      card {k. k < 32 \<and> sector_meaningful (js_slice d (k * 1024) (k * 1024 + 1024))} \<le> 32 \<and>
      FrmConverter_analyzeDFlashCorruption d =
        \<lparr> corruptionLevel = Some (Math_round (100 * of_nat
              (card {k. k < 32 \<and> sector_meaningful (js_slice d (k * 1024) (k * 1024 + 1024))}) / 32)),
          recoverableSectors =
              card {k. k < 32 \<and> sector_meaningful (js_slice d (k * 1024) (k * 1024 + 1024))},
          totalSectors = 32 \<rparr> \<and>
      map_sum id totalSectors (analyzeDFlash d) = Inr 32 \<and>
      map_sum id recoverableSectors (analyzeDFlash d) =
        Inr (card {k. k < 32 \<and> sector_meaningful (js_slice d (k * 1024) (k * 1024 + 1024))}) \<and>
      map_sum id corruptionLevel (analyzeDFlash d) =
        Inr (Some (Math_round (100 * of_nat
              (card {k. k < 32 \<and> sector_meaningful (js_slice d (k * 1024) (k * 1024 + 1024))}) / 32)))"
  proof
    assume len: "length d = 32768"
    have le: "card {k. k < 32 \<and> sector_meaningful (js_slice d (k * 1024) (k * 1024 + 1024))} \<le> 32"
      by (rule card_sectors_le)
    from le FrmConverter_analyze_32768 [OF len] gen [OF len]
    show "card {k. k < 32 \<and> sector_meaningful (js_slice d (k * 1024) (k * 1024 + 1024))} \<le> 32 \<and>
      FrmConverter_analyzeDFlashCorruption d =
        \<lparr> corruptionLevel = Some (Math_round (100 * of_nat
              (card {k. k < 32 \<and> sector_meaningful (js_slice d (k * 1024) (k * 1024 + 1024))}) / 32)),
          recoverableSectors =
              card {k. k < 32 \<and> sector_meaningful (js_slice d (k * 1024) (k * 1024 + 1024))},
          totalSectors = 32 \<rparr> \<and>
      map_sum id totalSectors (analyzeDFlash d) = Inr 32 \<and>
      map_sum id recoverableSectors (analyzeDFlash d) =
        Inr (card {k. k < 32 \<and> sector_meaningful (js_slice d (k * 1024) (k * 1024 + 1024))}) \<and>
      map_sum id corruptionLevel (analyzeDFlash d) =
        Inr (Some (Math_round (100 * of_nat
              (card {k. k < 32 \<and> sector_meaningful (js_slice d (k * 1024) (k * 1024 + 1024))}) / 32)))"
      by (intro conjI) (erule conjE | assumption)+
  qed
  show ?thesis
    by (intro conjI main c1 c2 c3 c4)
qed

text \<open>
  An image of 32 sectors of which the first four are meaningful: the level is
  \<open>Math.round(12.5) = 13\<close>.
\<close>

theorem analyze_report_witness:
  "length (replicate 4096 (0x42 :: byte) @ replicate 28672 0xFF) = 32768 \<and>
   FrmConverter_analyzeDFlashCorruption (replicate 4096 0x42 @ replicate 28672 0xFF) =
     \<lparr> corruptionLevel = Some 13, recoverableSectors = 4, totalSectors = 32 \<rparr> \<and>
   map_sum id totalSectors (analyzeDFlash (replicate 4096 0x42 @ replicate 28672 0xFF)) = Inr 32 \<and>
   map_sum id recoverableSectors (analyzeDFlash (replicate 4096 0x42 @ replicate 28672 0xFF))
     = Inr 4 \<and>
   map_sum id corruptionLevel (analyzeDFlash (replicate 4096 0x42 @ replicate 28672 0xFF))
     = Inr (Some 13)"
proof -
  define d :: "byte list" where "d = replicate 4096 0x42 @ replicate 28672 0xFF"
  have l: "length d = 32768" by (simp add: d_def)
  have s1: "js_slice d (k * 1024) (k * 1024 + 1024) = replicate 1024 0x42" if "k < 4" for k
    using that by (simp add: d_def js_slice_def)
  have s2: "js_slice d (k * 1024) (k * 1024 + 1024) = replicate 1024 0xFF" if "4 \<le> k" "k < 32" for k
    using that by (simp add: d_def js_slice_def)
  have "{k. k < 32 \<and> sector_meaningful (js_slice d (k * 1024) (k * 1024 + 1024))} = {..< 4}"
  proof (rule set_eqI)
    fix k
    show "k \<in> {k. k < 32 \<and> sector_meaningful (js_slice d (k * 1024) (k * 1024 + 1024))}
            \<longleftrightarrow> k \<in> {..< 4}"
    proof (cases "k < 4")
      case True
      then show ?thesis by (simp add: s1 sector_meaningful_replicate)
    next
      case False
      then show ?thesis by (cases "k < 32") (simp_all add: s2 sector_meaningful_replicate)
    qed
  qed
  then have c: "card {k. k < 32 \<and> sector_meaningful (js_slice d (k * 1024) (k * 1024 + 1024))} = 4"
    by simp
  have r: "Math_round (100 * 4 / 32) = 13"
    by (rule Math_round_values)
  show ?thesis
    unfolding d_def [symmetric]
    using analyze_report [of d] l by (simp add: c r Math_round_values)
qed

subsection \<open>C6: the identifier pattern and the first match\<close>

text \<open>
  Claim C6. A candidate is accepted only if it has 17 characters, all of them from the
  alphabet A to H, J to N, P, R to Z, 0 to 9; a candidate that contains I, O or Q is not
  accepted. Each extraction returns the first accepted candidate in ascending order of the
  offsets it scans (0x1000, 0x1500, 0x2000 in the class, \<open>4096 + 16 * k\<close> for
  \<open>k < 256\<close> in the server), and absence, which is a value and not an error, exactly when
  no scanned offset holds an accepted candidate.
\<close>

theorem identifier_first_match:
  "(vin_regex_test s \<longrightarrow>
      length s = 17 \<and> set s \<subseteq> set (js_str ''ABCDEFGHJKLMNPRSTUVWXYZ0123456789'') \<and>
      of_char CHR ''I'' \<notin> set s \<and> of_char CHR ''O'' \<notin> set s \<and> of_char CHR ''Q'' \<notin> set s) \<and>
   (FrmConverter_extractVIN d = None \<longleftrightarrow>
      (\<forall>off \<in> {0x1000, 0x1500, 0x2000}.
         \<not> vin_regex_test (TextDecoder_ascii (js_slice d off (off + 17))))) \<and>
   (FrmConverter_extractVIN d = Some v \<longleftrightarrow>
      (\<exists>off \<in> {0x1000, 0x1500, 0x2000}.
         v = TextDecoder_ascii (js_slice d off (off + 17)) \<and> vin_regex_test v \<and>
         (\<forall>off' \<in> {0x1000, 0x1500, 0x2000}. off' < off \<longrightarrow>
            \<not> vin_regex_test (TextDecoder_ascii (js_slice d off' (off' + 17)))))) \<and>
   (extractVin d = None \<longleftrightarrow>
      (\<forall>k < 256. \<not> vin_regex_test
         (Buffer_toString_ascii (js_slice d (4096 + 16 * k) (4096 + 16 * k + 17))))) \<and>
   (extractVin d = Some v \<longleftrightarrow>
      (\<exists>k < 256. v = Buffer_toString_ascii (js_slice d (4096 + 16 * k) (4096 + 16 * k + 17)) \<and>
         vin_regex_test v \<and>
         (\<forall>j < k. \<not> vin_regex_test
            (Buffer_toString_ascii (js_slice d (4096 + 16 * j) (4096 + 16 * j + 17))))))"
proof -
  have a: "length s = 17 \<and> set s \<subseteq> set (js_str ''ABCDEFGHJKLMNPRSTUVWXYZ0123456789'') \<and>
      of_char CHR ''I'' \<notin> set s \<and> of_char CHR ''O'' \<notin> set s \<and> of_char CHR ''Q'' \<notin> set s"
    if t: "vin_regex_test s"
  proof -
    have all: "\<forall>c \<in> set s. vin_char_class c"
      using t by (simp add: vin_regex_test_def list_all_iff)
    have "\<not> vin_char_class (of_char CHR ''I'')" "\<not> vin_char_class (of_char CHR ''O'')"
         "\<not> vin_char_class (of_char CHR ''Q'')"
      by (simp_all add: vin_char_class_def)
    with all have "of_char CHR ''I'' \<notin> set s \<and> of_char CHR ''O'' \<notin> set s \<and>
                   of_char CHR ''Q'' \<notin> set s"
      by blast
    moreover have "set s \<subseteq> set (js_str ''ABCDEFGHJKLMNPRSTUVWXYZ0123456789'')"
      using all vin_char_class_alphabet by blast
    ultimately show ?thesis using t by (simp add: vin_regex_test_length)
  qed
  show ?thesis
    by (intro conjI impI a FrmConverter_extractVIN_None_iff FrmConverter_extractVIN_Some_iff
        extractVin_None_iff extractVin_Some_iff)
qed

text \<open>
  The image that holds \<open>WBA12345678901234\<close> at the offset 0x1000 and zeros elsewhere:
  both extractions return this identifier.
\<close>

theorem identifier_first_match_witness:
  "vin_regex_test (js_str ''WBA12345678901234'') \<and>
   length (js_str ''WBA12345678901234'') = 17 \<and>
   of_char CHR ''I'' \<notin> set (js_str ''WBA12345678901234'') \<and>
   of_char CHR ''O'' \<notin> set (js_str ''WBA12345678901234'') \<and>
   of_char CHR ''Q'' \<notin> set (js_str ''WBA12345678901234'') \<and>
   FrmConverter_extractVIN (image_with 0x1000 vin_bytes) = Some (js_str ''WBA12345678901234'') \<and>
   extractVin (image_with 0x1000 vin_bytes) = Some (js_str ''WBA12345678901234'')"
proof -
  have w: "js_slice (image_with 0x1000 vin_bytes) 0x1000 (0x1000 + 17) = vin_bytes"
    using js_slice_image_with_same [of "0x1000" vin_bytes] by simp
  have w': "js_slice (image_with 0x1000 vin_bytes) (4096 + 16 * 0) (4096 + 16 * 0 + 17) = vin_bytes"
    using w by simp
  note t = identifier_first_match
    [of "js_str ''WBA12345678901234''" "image_with 0x1000 vin_bytes" "js_str ''WBA12345678901234''"]
  have a: "FrmConverter_extractVIN (image_with 0x1000 vin_bytes) = Some (js_str ''WBA12345678901234'')"
    using t w vin_example_valid by (simp add: decode_vin_bytes)
  have "\<exists>k<256. js_str ''WBA12345678901234'' =
          Buffer_toString_ascii (js_slice (image_with 0x1000 vin_bytes) (4096 + 16 * k) (4096 + 16 * k + 17)) \<and>
          vin_regex_test (js_str ''WBA12345678901234'') \<and>
          (\<forall>j<k. \<not> vin_regex_test (Buffer_toString_ascii
             (js_slice (image_with 0x1000 vin_bytes) (4096 + 16 * j) (4096 + 16 * j + 17))))"
    by (rule exI [of _ 0]) (simp only: w' decode_vin_bytes vin_example_valid, simp)
  with t have b: "extractVin (image_with 0x1000 vin_bytes) = Some (js_str ''WBA12345678901234'')"
    by blast
  from t vin_example_valid a b show ?thesis by blast
qed

text \<open>
  The characters are those of the decoded window. The server decodes with the highest bit
  of every byte cleared, so the bytes of an identifier with that bit set give the same
  identifier; the decoder of the class maps such bytes to characters outside the alphabet.
\<close>

lemma server_decoding_clears_high_bit:
  "Buffer_toString_ascii (map (\<lambda>b. b OR 0x80) vin_bytes) = js_str ''WBA12345678901234'' \<and>
   \<not> vin_regex_test (TextDecoder_ascii (map (\<lambda>b. b OR 0x80) vin_bytes))"
  by (simp add: Buffer_toString_ascii_def TextDecoder_ascii_def vin_bytes_def js_str_def
      windows1252_def vin_regex_test_def vin_char_class_def)

subsection \<open>C10: the offsets that the identifier extraction reads\<close>

text \<open>
  Claim C10. The identifier extraction reads only the windows of 17 bytes at its scanned
  offsets (0x1000, 0x1500, 0x2000 in the class; the 256 multiples of 16 from 0x1000 up to
  0x1FF0 in the server): two images that agree on these windows give the same result. For
  an image of 32768 bytes in which no scanned window holds a valid identifier, whatever the
  other offsets hold, the extraction returns absence and the identifier field at the
  offsets 0x10 to 0x20 of the output is left as allocated (0xFF in the class, 0x00 in the
  server).
\<close>

theorem identifier_scan_offsets_only:
  "((\<forall>off \<in> {0x1000, 0x1500, 0x2000}. js_slice d off (off + 17) = js_slice d' off (off + 17))
      \<longrightarrow> FrmConverter_extractVIN d = FrmConverter_extractVIN d') \<and>
   ((\<forall>k < 256. js_slice d (4096 + 16 * k) (4096 + 16 * k + 17)
                = js_slice d' (4096 + 16 * k) (4096 + 16 * k + 17))
      \<longrightarrow> extractVin d = extractVin d') \<and>
   (length d = 32768 \<and>
    (\<forall>off \<in> {0x1000, 0x1500, 0x2000}.
       \<not> vin_regex_test (TextDecoder_ascii (js_slice d off (off + 17))))
      \<longrightarrow> FrmConverter_extractVIN d = None \<and>
          image_bytes (FrmConverter_convertDFlashToEEPROM d) 0x10 0x21 = Some (replicate 17 0xFF)) \<and>
   (length d = 32768 \<and>
    (\<forall>k < 256. \<not> vin_regex_test
       (Buffer_toString_ascii (js_slice d (4096 + 16 * k) (4096 + 16 * k + 17))))
      \<longrightarrow> extractVin d = None \<and>
          image_bytes (convertDFlashToEEPROM d) 0x10 0x21 = Some (replicate 17 0x00))"
proof (intro conjI impI)
  assume "\<forall>off \<in> {0x1000, 0x1500, 0x2000}. js_slice d off (off + 17) = js_slice d' off (off + 17)"
  then show "FrmConverter_extractVIN d = FrmConverter_extractVIN d'"
    by (rule FrmConverter_extractVIN_cong)
next
  assume "\<forall>k < 256. js_slice d (4096 + 16 * k) (4096 + 16 * k + 17)
                = js_slice d' (4096 + 16 * k) (4096 + 16 * k + 17)"
  then show "extractVin d = extractVin d'"
    by (rule extractVin_cong)
next
  assume a: "length d = 32768 \<and>
    (\<forall>off \<in> {0x1000, 0x1500, 0x2000}.
       \<not> vin_regex_test (TextDecoder_ascii (js_slice d off (off + 17))))"
  then show n: "FrmConverter_extractVIN d = None"
    by (simp add: FrmConverter_extractVIN_None_iff)
  from a n show "image_bytes (FrmConverter_convertDFlashToEEPROM d) 0x10 0x21 = Some (replicate 17 0xFF)"
    by (simp add: FrmConverter_no_vin_field)
next
  assume a: "length d = 32768 \<and>
    (\<forall>k < 256. \<not> vin_regex_test
       (Buffer_toString_ascii (js_slice d (4096 + 16 * k) (4096 + 16 * k + 17))))"
  then show n: "extractVin d = None"
    by (simp add: extractVin_None_iff)
  from a n show "image_bytes (convertDFlashToEEPROM d) 0x10 0x21 = Some (replicate 17 0x00)"
    by (simp add: server_no_vin_field)
qed

text \<open>
  The image that holds \<open>WBA12345678901234\<close> at the offset 0x1008, inside the scanned
  range but at no scanned offset: both extractions return absence, as they do for the
  image of zeros, and the identifier field of both outputs is left as allocated. The image
  that holds the identifier at offset 0 agrees with the image of zeros on every scanned
  window.
\<close>

theorem identifier_scan_offsets_only_witness:
  "js_slice (image_with 0x1008 vin_bytes) 0x1008 (0x1008 + 17) = vin_bytes \<and>
   vin_regex_test (TextDecoder_ascii vin_bytes) \<and>
   vin_regex_test (Buffer_toString_ascii vin_bytes) \<and>
   length (image_with 0x1008 vin_bytes) = 32768 \<and>
   FrmConverter_extractVIN (image_with 0x1008 vin_bytes) = None \<and>
   extractVin (image_with 0x1008 vin_bytes) = None \<and>
   image_bytes (FrmConverter_convertDFlashToEEPROM (image_with 0x1008 vin_bytes)) 0x10 0x21
     = Some (replicate 17 0xFF) \<and>
   image_bytes (convertDFlashToEEPROM (image_with 0x1008 vin_bytes)) 0x10 0x21
     = Some (replicate 17 0x00) \<and>
   FrmConverter_extractVIN (image_with 0 vin_bytes) = FrmConverter_extractVIN (replicate 32768 0) \<and>
   extractVin (image_with 0 vin_bytes) = extractVin (replicate 32768 0)"
proof -
  have l: "length (image_with 0x1008 vin_bytes) = 32768"
    by (simp add: length_image_with)
  have z: "0 \<in> set (js_slice (image_with 0x1008 vin_bytes) a (a + 17))"
    if "a + 17 \<le> 32768" "a \<noteq> 0x1008" for a
    using that by (intro zero_in_window) simp_all
  have h1: "\<forall>off \<in> {0x1000, 0x1500, 0x2000}.
       \<not> vin_regex_test (TextDecoder_ascii (js_slice (image_with 0x1008 vin_bytes) off (off + 17)))"
  proof -
    have "\<not> vin_regex_test (TextDecoder_ascii (js_slice (image_with 0x1008 vin_bytes) a (a + 17)))"
      if "a + 17 \<le> 32768" "a \<noteq> 0x1008" for a
      using that by (intro zero_not_vin_TextDecoder z)
    from this [of "0x1000"] this [of "0x1500"] this [of "0x2000"] show ?thesis by simp
  qed
  have h2: "\<forall>k < 256. \<not> vin_regex_test (Buffer_toString_ascii
       (js_slice (image_with 0x1008 vin_bytes) (4096 + 16 * k) (4096 + 16 * k + 17)))"
  proof (intro allI impI)
    fix k :: nat assume "k < 256"
    then have "4096 + 16 * k + 17 \<le> 32768" "4096 + 16 * k \<noteq> 0x1008" by presburger+
    then show "\<not> vin_regex_test (Buffer_toString_ascii
       (js_slice (image_with 0x1008 vin_bytes) (4096 + 16 * k) (4096 + 16 * k + 17)))"
      by (intro zero_not_vin_toString z)
  qed
  have s0: "js_slice (image_with 0 vin_bytes) a (a + 17) = js_slice (replicate 32768 0) a (a + 17)"
    if "17 \<le> a" "a + 17 \<le> 32768" for a
    using that by (simp add: js_slice_image_with_disjoint slice_replicate)
  have g1: "\<forall>off \<in> {0x1000, 0x1500, 0x2000}.
       js_slice (image_with 0 vin_bytes) off (off + 17) = js_slice (replicate 32768 0) off (off + 17)"
    using s0 [of "0x1000"] s0 [of "0x1500"] s0 [of "0x2000"] by simp
  have g2: "\<forall>k < 256. js_slice (image_with 0 vin_bytes) (4096 + 16 * k) (4096 + 16 * k + 17)
                = js_slice (replicate 32768 0) (4096 + 16 * k) (4096 + 16 * k + 17)"
  proof (intro allI impI)
    fix k :: nat assume "k < 256"
    then have "17 \<le> 4096 + 16 * k" "4096 + 16 * k + 17 \<le> 32768" by simp_all
    then show "js_slice (image_with 0 vin_bytes) (4096 + 16 * k) (4096 + 16 * k + 17)
                = js_slice (replicate 32768 0) (4096 + 16 * k) (4096 + 16 * k + 17)"
      by (rule s0)
  qed
  note t1 = identifier_scan_offsets_only [of "image_with 0x1008 vin_bytes" "image_with 0x1008 vin_bytes"]
  note t2 = identifier_scan_offsets_only [of "image_with 0 vin_bytes" "replicate 32768 0"]
  have w: "js_slice (image_with 0x1008 vin_bytes) 0x1008 (0x1008 + 17) = vin_bytes"
    using js_slice_image_with_same [of "0x1008" vin_bytes] by simp
  have v: "vin_regex_test (TextDecoder_ascii vin_bytes)" "vin_regex_test (Buffer_toString_ascii vin_bytes)"
    by (simp_all add: decode_vin_bytes vin_example_valid)
  from t1 l h1 h2 have c1:
    "FrmConverter_extractVIN (image_with 0x1008 vin_bytes) = None \<and>
     extractVin (image_with 0x1008 vin_bytes) = None \<and>
     image_bytes (FrmConverter_convertDFlashToEEPROM (image_with 0x1008 vin_bytes)) 0x10 0x21
       = Some (replicate 17 0xFF) \<and>
     image_bytes (convertDFlashToEEPROM (image_with 0x1008 vin_bytes)) 0x10 0x21
       = Some (replicate 17 0x00)"
    by blast
  from t2 g1 g2 have c2:
    "FrmConverter_extractVIN (image_with 0 vin_bytes) = FrmConverter_extractVIN (replicate 32768 0) \<and>
     extractVin (image_with 0 vin_bytes) = extractVin (replicate 32768 0)"
    by blast
  from w v l c1 c2 show ?thesis by blast
qed

subsection \<open>C7: the odometer value\<close>

text \<open>
  Claim C7, as the code has it. Both extractions scan their offsets in ascending order and
  yield absence exactly when no scanned offset qualifies. The server, at the offsets
  \<open>8192 + 4 * k\<close> for \<open>k < 1024\<close>, decodes the four bytes as an unsigned 32-bit
  little-endian number and accepts the first value that is greater than 0 and less than
  1000000. The class, at each of its offsets 0x2100, 0x2200, 0x2300 and 0x2400, accepts the
  little-endian value when it is in this range and otherwise the big-endian value of the
  same four bytes when that is in this range. In both, an accepted value is written as a
  little-endian unsigned 32-bit number at the offset 0x30 of the output.
\<close>

theorem odometer_first_plausible:
  "length d = 32768 \<longrightarrow>
     \<not> isl (extractMileage d) \<and>
     (extractMileage d = Inr None \<longleftrightarrow>
        (\<forall>k < 1024. \<not> (0 < uint32_of True (js_slice d (8192 + 4 * k) (8192 + 4 * k + 4)) \<and>
                       uint32_of True (js_slice d (8192 + 4 * k) (8192 + 4 * k + 4)) < 1000000))) \<and>
     (extractMileage d = Inr (Some m) \<longleftrightarrow>
        (\<exists>k < 1024. m = uint32_of True (js_slice d (8192 + 4 * k) (8192 + 4 * k + 4)) \<and>
           0 < m \<and> m < 1000000 \<and>
           (\<forall>j < k. \<not> (0 < uint32_of True (js_slice d (8192 + 4 * j) (8192 + 4 * j + 4)) \<and>
                        uint32_of True (js_slice d (8192 + 4 * j) (8192 + 4 * j + 4)) < 1000000)))) \<and>
     (extractMileage d = Inr (Some m) \<longrightarrow>
        image_bytes (convertDFlashToEEPROM d) 0x30 0x34 = Some (le_bytes32 m) \<and>
        uint32_of True (le_bytes32 m) = m) \<and>
     (FrmConverter_extractMileage d = None \<longleftrightarrow>
        (\<forall>off \<in> {0x2100, 0x2200, 0x2300, 0x2400}.
           \<not> (0 < uint32_of True (js_slice d off (off + 4)) \<and>
              uint32_of True (js_slice d off (off + 4)) < 1000000) \<and>
           \<not> (0 < uint32_of False (js_slice d off (off + 4)) \<and>
              uint32_of False (js_slice d off (off + 4)) < 1000000))) \<and>
     (FrmConverter_extractMileage d = Some m \<longleftrightarrow>
        (\<exists>off \<in> {0x2100, 0x2200, 0x2300, 0x2400}.
           (((0 < uint32_of True (js_slice d off (off + 4)) \<and>
              uint32_of True (js_slice d off (off + 4)) < 1000000) \<and>
             m = uint32_of True (js_slice d off (off + 4))) \<or>
            (\<not> (0 < uint32_of True (js_slice d off (off + 4)) \<and>
                uint32_of True (js_slice d off (off + 4)) < 1000000) \<and>
             (0 < uint32_of False (js_slice d off (off + 4)) \<and>
              uint32_of False (js_slice d off (off + 4)) < 1000000) \<and>
             m = uint32_of False (js_slice d off (off + 4)))) \<and>
           (\<forall>off' \<in> {0x2100, 0x2200, 0x2300, 0x2400}. off' < off \<longrightarrow>
              \<not> (0 < uint32_of True (js_slice d off' (off' + 4)) \<and>
                 uint32_of True (js_slice d off' (off' + 4)) < 1000000) \<and>
              \<not> (0 < uint32_of False (js_slice d off' (off' + 4)) \<and>
                 uint32_of False (js_slice d off' (off' + 4)) < 1000000)))) \<and>
     (FrmConverter_extractMileage d = Some m \<longrightarrow>
        image_bytes (FrmConverter_convertDFlashToEEPROM d) 0x30 0x34 = Some (le_bytes32 m) \<and>
        uint32_of True (le_bytes32 m) = m)"
proof
  assume len: "length d = 32768"
  then have len': "12288 \<le> length d" by simp
  have a: "\<not> isl (extractMileage d)"
    by (simp add: extractMileage_find [OF len'])
  have b: "image_bytes (convertDFlashToEEPROM d) 0x30 0x34 = Some (le_bytes32 m) \<and>
           uint32_of True (le_bytes32 m) = m"
    if "extractMileage d = Inr (Some m)"
    using that extractMileage_range [OF len' that]
    by (simp add: server_mileage_field uint32_of_le_bytes32)
  have c: "image_bytes (FrmConverter_convertDFlashToEEPROM d) 0x30 0x34 = Some (le_bytes32 m) \<and>
           uint32_of True (le_bytes32 m) = m"
    if "FrmConverter_extractMileage d = Some m"
    using that FrmConverter_extractMileage_range [OF that] len
    by (simp add: FrmConverter_mileage_field uint32_of_le_bytes32)
  show "\<not> isl (extractMileage d) \<and>
     (extractMileage d = Inr None \<longleftrightarrow>
        (\<forall>k < 1024. \<not> (0 < uint32_of True (js_slice d (8192 + 4 * k) (8192 + 4 * k + 4)) \<and>
                       uint32_of True (js_slice d (8192 + 4 * k) (8192 + 4 * k + 4)) < 1000000))) \<and>
     (extractMileage d = Inr (Some m) \<longleftrightarrow>
        (\<exists>k < 1024. m = uint32_of True (js_slice d (8192 + 4 * k) (8192 + 4 * k + 4)) \<and>
           0 < m \<and> m < 1000000 \<and>
           (\<forall>j < k. \<not> (0 < uint32_of True (js_slice d (8192 + 4 * j) (8192 + 4 * j + 4)) \<and>
                        uint32_of True (js_slice d (8192 + 4 * j) (8192 + 4 * j + 4)) < 1000000)))) \<and>
     (extractMileage d = Inr (Some m) \<longrightarrow>
        image_bytes (convertDFlashToEEPROM d) 0x30 0x34 = Some (le_bytes32 m) \<and>
        uint32_of True (le_bytes32 m) = m) \<and>
     (FrmConverter_extractMileage d = None \<longleftrightarrow>
        (\<forall>off \<in> {0x2100, 0x2200, 0x2300, 0x2400}.
           \<not> (0 < uint32_of True (js_slice d off (off + 4)) \<and>
              uint32_of True (js_slice d off (off + 4)) < 1000000) \<and>
           \<not> (0 < uint32_of False (js_slice d off (off + 4)) \<and>
              uint32_of False (js_slice d off (off + 4)) < 1000000))) \<and>
     (FrmConverter_extractMileage d = Some m \<longleftrightarrow>
        (\<exists>off \<in> {0x2100, 0x2200, 0x2300, 0x2400}.
           (((0 < uint32_of True (js_slice d off (off + 4)) \<and>
              uint32_of True (js_slice d off (off + 4)) < 1000000) \<and>
             m = uint32_of True (js_slice d off (off + 4))) \<or>
            (\<not> (0 < uint32_of True (js_slice d off (off + 4)) \<and>
                uint32_of True (js_slice d off (off + 4)) < 1000000) \<and>
             (0 < uint32_of False (js_slice d off (off + 4)) \<and>
              uint32_of False (js_slice d off (off + 4)) < 1000000) \<and>
             m = uint32_of False (js_slice d off (off + 4)))) \<and>
           (\<forall>off' \<in> {0x2100, 0x2200, 0x2300, 0x2400}. off' < off \<longrightarrow>
              \<not> (0 < uint32_of True (js_slice d off' (off' + 4)) \<and>
                 uint32_of True (js_slice d off' (off' + 4)) < 1000000) \<and>
              \<not> (0 < uint32_of False (js_slice d off' (off' + 4)) \<and>
                 uint32_of False (js_slice d off' (off' + 4)) < 1000000)))) \<and>
     (FrmConverter_extractMileage d = Some m \<longrightarrow>
        image_bytes (FrmConverter_convertDFlashToEEPROM d) 0x30 0x34 = Some (le_bytes32 m) \<and>
        uint32_of True (le_bytes32 m) = m)"
    by (intro conjI impI a b c extractMileage_None_iff [OF len'] extractMileage_Some_iff [OF len']
        FrmConverter_extractMileage_None_iff [OF len] FrmConverter_extractMileage_Some_iff [OF len])
qed

text \<open>
  The image that holds the little-endian number 123456 at the offset 0x2100, which both
  extractions scan, and zeros elsewhere.
\<close>

theorem odometer_first_plausible_witness:
  "length (image_with 0x2100 [0x40, 0xE2, 0x01, 0x00]) = 32768 \<and>
   extractMileage (image_with 0x2100 [0x40, 0xE2, 0x01, 0x00]) = Inr (Some 123456) \<and>
   FrmConverter_extractMileage (image_with 0x2100 [0x40, 0xE2, 0x01, 0x00]) = Some 123456 \<and>
   image_bytes (convertDFlashToEEPROM (image_with 0x2100 [0x40, 0xE2, 0x01, 0x00])) 0x30 0x34
     = Some [0x40, 0xE2, 0x01, 0x00] \<and>
   image_bytes (FrmConverter_convertDFlashToEEPROM (image_with 0x2100 [0x40, 0xE2, 0x01, 0x00]))
      0x30 0x34 = Some [0x40, 0xE2, 0x01, 0x00]"
proof -
  define img :: "byte list" where "img = image_with 0x2100 [0x40, 0xE2, 0x01, 0x00]"
  have l: "length img = 32768" by (simp add: img_def length_image_with)
  have same: "js_slice img 0x2100 (0x2100 + 4) = [0x40, 0xE2, 0x01, 0x00]"
    unfolding img_def by (rule odometer_window_same) simp_all
  have v: "uint32_of True (js_slice img 0x2100 (0x2100 + 4)) = 123456"
    unfolding same by (simp add: uint32_of_def)
  have z: "uint32_of le (js_slice img a (a + 4)) = 0"
    if "a + 4 \<le> 32768" "a + 4 \<le> 0x2100 \<or> 0x2100 + 4 \<le> a" for a le
    unfolding img_def using that by (intro odometer_window_zero) simp_all
  note t = odometer_first_plausible [of img 123456]
  have s: "\<exists>k < 1024. 123456 = uint32_of True (js_slice img (8192 + 4 * k) (8192 + 4 * k + 4)) \<and>
           0 < (123456 :: nat) \<and> (123456 :: nat) < 1000000 \<and>
           (\<forall>j < k. \<not> (0 < uint32_of True (js_slice img (8192 + 4 * j) (8192 + 4 * j + 4)) \<and>
                        uint32_of True (js_slice img (8192 + 4 * j) (8192 + 4 * j + 4)) < 1000000))"
  proof (intro exI [of _ 64] conjI allI impI)
    show "123456 = uint32_of True (js_slice img (8192 + 4 * 64) (8192 + 4 * 64 + 4))"
      using v by simp
  next
    fix j :: nat assume "j < 64"
    then have "uint32_of True (js_slice img (8192 + 4 * j) (8192 + 4 * j + 4)) = 0"
      by (intro z) simp_all
    then show "\<not> (0 < uint32_of True (js_slice img (8192 + 4 * j) (8192 + 4 * j + 4)) \<and>
                 uint32_of True (js_slice img (8192 + 4 * j) (8192 + 4 * j + 4)) < 1000000)"
      by simp
  qed simp_all
  have c: "\<exists>off \<in> {0x2100, 0x2200, 0x2300, 0x2400}.
           (((0 < uint32_of True (js_slice img off (off + 4)) \<and>
              uint32_of True (js_slice img off (off + 4)) < 1000000) \<and>
             123456 = uint32_of True (js_slice img off (off + 4))) \<or>
            (\<not> (0 < uint32_of True (js_slice img off (off + 4)) \<and>
                uint32_of True (js_slice img off (off + 4)) < 1000000) \<and>
             (0 < uint32_of False (js_slice img off (off + 4)) \<and>
              uint32_of False (js_slice img off (off + 4)) < 1000000) \<and>
             123456 = uint32_of False (js_slice img off (off + 4)))) \<and>
           (\<forall>off' \<in> {0x2100, 0x2200, 0x2300, 0x2400}. off' < off \<longrightarrow>
              \<not> (0 < uint32_of True (js_slice img off' (off' + 4)) \<and>
                 uint32_of True (js_slice img off' (off' + 4)) < 1000000) \<and>
              \<not> (0 < uint32_of False (js_slice img off' (off' + 4)) \<and>
                 uint32_of False (js_slice img off' (off' + 4)) < 1000000))"
    using v by (intro bexI [of _ "0x2100"]) simp_all
  have b: "le_bytes32 123456 = [0x40, 0xE2, 0x01, 0x00]"
    by (simp add: le_bytes32_def)
  from t l s c have
    "extractMileage img = Inr (Some 123456) \<and> FrmConverter_extractMileage img = Some 123456 \<and>
     image_bytes (convertDFlashToEEPROM img) 0x30 0x34 = Some (le_bytes32 123456) \<and>
     image_bytes (FrmConverter_convertDFlashToEEPROM img) 0x30 0x34 = Some (le_bytes32 123456)"
    by blast
  with l show ?thesis unfolding img_def b by simp
qed

text \<open>
  The image that holds the bytes 00 01 E2 40 at the offset 0x2100 and zeros elsewhere: the
  little-endian value at 0x2100 is 1088553216 and at the other three offsets 0, so no
  scanned offset has a little-endian value in the range; the class accepts the big-endian
  value 123456 and writes it at the offset 0x30.
\<close>

theorem odometer_big_endian_accepted:
  "uint32_of True (js_slice (image_with 0x2100 [0x00, 0x01, 0xE2, 0x40]) 0x2100 0x2104) = 1088553216 \<and>
   uint32_of True (js_slice (image_with 0x2100 [0x00, 0x01, 0xE2, 0x40]) 0x2200 0x2204) = 0 \<and>
   uint32_of True (js_slice (image_with 0x2100 [0x00, 0x01, 0xE2, 0x40]) 0x2300 0x2304) = 0 \<and>
   uint32_of True (js_slice (image_with 0x2100 [0x00, 0x01, 0xE2, 0x40]) 0x2400 0x2404) = 0 \<and>
   FrmConverter_extractMileage (image_with 0x2100 [0x00, 0x01, 0xE2, 0x40]) = Some 123456 \<and>
   image_bytes (FrmConverter_convertDFlashToEEPROM (image_with 0x2100 [0x00, 0x01, 0xE2, 0x40]))
      0x30 0x34 = Some [0x40, 0xE2, 0x01, 0x00]"
proof -
  define img :: "byte list" where "img = image_with 0x2100 [0x00, 0x01, 0xE2, 0x40]"
  have l: "length img = 32768" by (simp add: img_def length_image_with)
  have same: "js_slice img 0x2100 0x2104 = [0x00, 0x01, 0xE2, 0x40]"
    unfolding img_def using odometer_window_same [of "0x2100" "[0x00, 0x01, 0xE2, 0x40]"] by simp
  have v: "uint32_of True (js_slice img 0x2100 0x2104) = 1088553216"
          "uint32_of False (js_slice img 0x2100 0x2104) = 123456"
    unfolding same by (simp_all add: uint32_of_def)
  have z: "uint32_of True (js_slice img 0x2200 0x2204) = 0"
          "uint32_of True (js_slice img 0x2300 0x2304) = 0"
          "uint32_of True (js_slice img 0x2400 0x2404) = 0"
    unfolding img_def
    using odometer_window_zero [of "0x2100" "[0x00, 0x01, 0xE2, 0x40]" "0x2200" True]
      odometer_window_zero [of "0x2100" "[0x00, 0x01, 0xE2, 0x40]" "0x2300" True]
      odometer_window_zero [of "0x2100" "[0x00, 0x01, 0xE2, 0x40]" "0x2400" True]
    by simp_all
  have m: "FrmConverter_extractMileage img = Some 123456"
    by (simp add: FrmConverter_extractMileage_def MILEAGE_OFFSETS_def l v)
  have b: "le_bytes32 123456 = [0x40, 0xE2, 0x01, 0x00]"
    by (simp add: le_bytes32_def)
  have "image_bytes (FrmConverter_convertDFlashToEEPROM img) 0x30 0x34 = Some [0x40, 0xE2, 0x01, 0x00]"
    using FrmConverter_mileage_field [OF l m] by (simp add: b)
  with v z m show ?thesis unfolding img_def by simp
qed

subsection \<open>C9: the category label and the production year\<close>

text \<open>
  Claim C9, as the code has it. For an identifier that the class finds, its label is the
  entry of the first three characters in the table of the class, and the label
  \<open>BMW (Unknown Model)\<close>, never absence, for a prefix that the table does not hold. For
  an identifier that the server finds, its label is the entry of the first three characters
  among \<open>WBA\<close>, \<open>WBY\<close> and \<open>5UX\<close>, and absence for any other prefix; its
  production year is the entry of the character at index 9 in the table of years, and
  absence, never a fallback, for a character that the table does not hold.
\<close>

theorem derived_fields:
  "(FrmConverter_extractVIN d = Some v \<longrightarrow>
      FrmConverter_extractModel d =
        Some (case map_of modelMap (take 3 v) of
                Some label \<Rightarrow> label | None \<Rightarrow> ''BMW (Unknown Model)'')) \<and>
   (FrmConverter_extractVIN d = Some v \<and>
    take 3 v \<notin> {js_str ''WBA'', js_str ''WBY'', js_str ''5UX'', js_str ''WBX'', js_str ''WBS'',
                 js_str ''4US''} \<longrightarrow>
      FrmConverter_extractModel d = Some ''BMW (Unknown Model)'') \<and>
   (extractVin d = Some v \<longrightarrow>
      extractModel d =
        (if take 3 v = js_str ''WBA'' then Some ''BMW 3 Series''
         else if take 3 v = js_str ''WBY'' then Some ''BMW X3''
         else if take 3 v = js_str ''5UX'' then Some ''BMW X3 US''
         else None)) \<and>
   (extractVin d = Some v \<longrightarrow> extractYear d = map_of yearMap [v ! 9]) \<and>
   (extractVin d = Some v \<and> v ! 9 \<notin> set (js_str ''123456789ABCDEF'') \<longrightarrow> extractYear d = None)"
proof -
  have a: "FrmConverter_extractModel d =
        Some (case map_of modelMap (take 3 v) of
                Some label \<Rightarrow> label | None \<Rightarrow> ''BMW (Unknown Model)'')"
    if v: "FrmConverter_extractVIN d = Some v"
  proof -
    have "v \<noteq> []"
      using FrmConverter_extractVIN_valid [OF v] vin_regex_test_length by fastforce
    then show ?thesis
      by (simp add: FrmConverter_extractModel_def v split: option.split)
  qed
  have b: "FrmConverter_extractModel d = Some ''BMW (Unknown Model)''"
    if "FrmConverter_extractVIN d = Some v \<and>
        take 3 v \<notin> {js_str ''WBA'', js_str ''WBY'', js_str ''5UX'', js_str ''WBX'', js_str ''WBS'',
                     js_str ''4US''}"
  proof -
    from that have "map_of modelMap (take 3 v) = None"
      unfolding modelMap_dom by simp
    with that a show ?thesis by simp
  qed
  have c: "extractModel d =
        (if take 3 v = js_str ''WBA'' then Some ''BMW 3 Series''
         else if take 3 v = js_str ''WBY'' then Some ''BMW X3''
         else if take 3 v = js_str ''5UX'' then Some ''BMW X3 US''
         else None)"
    if v: "extractVin d = Some v"
  proof -
    have "v \<noteq> []"
      using extractVin_valid [OF v] vin_regex_test_length by fastforce
    then show ?thesis
      by (simp add: extractModel_def v Let_def js_slice_prefix)
  qed
  have y: "extractYear d = map_of yearMap [v ! 9]" if v: "extractVin d = Some v"
  proof -
    have l: "length v = 17"
      using extractVin_valid [OF v] by (rule vin_regex_test_length)
    then have "v \<noteq> []" "js_slice v 9 10 = [v ! 9]"
      by (auto simp: js_slice_charAt)
    then show ?thesis
      by (auto simp: extractYear_def v Let_def split: option.split dest: yearMap_nonzero)
  qed
  have z: "extractYear d = None"
    if "extractVin d = Some v \<and> v ! 9 \<notin> set (js_str ''123456789ABCDEF'')"
    using that y yearMap_dom [of "v ! 9"] by simp
  show ?thesis
    by (intro conjI impI; (erule a | erule b | erule c | erule y | erule z))
qed

text \<open>
  The image with \<open>WBA12345678901234\<close> at the offset 0x1000 has the label
  \<open>BMW 3 Series\<close> in both and the year 2007; the image with \<open>ZZZ123456G8901234\<close>
  there has the fallback label in the class, and neither label nor year in the server.
\<close>

theorem derived_fields_witness:
  "FrmConverter_extractVIN (image_with 0x1000 vin_bytes) = Some (js_str ''WBA12345678901234'') \<and>
   extractVin (image_with 0x1000 vin_bytes) = Some (js_str ''WBA12345678901234'') \<and>
   FrmConverter_extractModel (image_with 0x1000 vin_bytes) = Some ''BMW 3 Series'' \<and>
   extractModel (image_with 0x1000 vin_bytes) = Some ''BMW 3 Series'' \<and>
   extractYear (image_with 0x1000 vin_bytes) = Some 2007 \<and>
   FrmConverter_extractVIN (image_with 0x1000 vin_bytes_unmapped)
     = Some (js_str ''ZZZ123456G8901234'') \<and>
   extractVin (image_with 0x1000 vin_bytes_unmapped) = Some (js_str ''ZZZ123456G8901234'') \<and>
   FrmConverter_extractModel (image_with 0x1000 vin_bytes_unmapped) = Some ''BMW (Unknown Model)'' \<and>
   extractYear (image_with 0x1000 vin_bytes_unmapped) = None"
proof -
  note t1 = derived_fields [of "image_with 0x1000 vin_bytes" "js_str ''WBA12345678901234''"]
  note t2 = derived_fields [of "image_with 0x1000 vin_bytes_unmapped" "js_str ''ZZZ123456G8901234''"]
  have m1: "map_of modelMap (take 3 (js_str ''WBA12345678901234'')) = Some ''BMW 3 Series''"
    by (simp add: modelMap_def js_str_def)
  have p1: "take 3 (js_str ''WBA12345678901234'') = js_str ''WBA''"
    by (simp add: js_str_def)
  have y1: "map_of yearMap [js_str ''WBA12345678901234'' ! 9] = Some 2007"
    by (simp add: yearMap_def js_str_def)
  have p2: "take 3 (js_str ''ZZZ123456G8901234'') \<notin>
      {js_str ''WBA'', js_str ''WBY'', js_str ''5UX'', js_str ''WBX'', js_str ''WBS'', js_str ''4US''}"
    by (simp add: js_str_def)
  have y2: "js_str ''ZZZ123456G8901234'' ! 9 \<notin> set (js_str ''123456789ABCDEF'')"
    by (simp add: js_str_def)
  from t1 extract_examples(1,2) m1 p1 y1 have r1:
    "FrmConverter_extractModel (image_with 0x1000 vin_bytes) = Some ''BMW 3 Series'' \<and>
     extractModel (image_with 0x1000 vin_bytes) = Some ''BMW 3 Series'' \<and>
     extractYear (image_with 0x1000 vin_bytes) = Some 2007"
    by simp
  from t2 extract_examples(3,4) p2 y2 have r2:
    "FrmConverter_extractModel (image_with 0x1000 vin_bytes_unmapped) = Some ''BMW (Unknown Model)'' \<and>
     extractYear (image_with 0x1000 vin_bytes_unmapped) = None"
    by blast
  from r1 r2 extract_examples show ?thesis by simp
qed

text \<open>
  The server has no fallback label: for the identifier \<open>ZZZ123456G8901234\<close>, whose
  prefix is in no table, its label is absent.
\<close>

theorem server_model_absent:
  "extractVin (image_with 0x1000 vin_bytes_unmapped) = Some (js_str ''ZZZ123456G8901234'') \<and>
   extractModel (image_with 0x1000 vin_bytes_unmapped) = None"
  by (simp add: extract_examples extractModel_def Let_def js_str_def js_slice_def)

subsection \<open>C8: the variant label\<close>

text \<open>
  Claim C8, as the code has it. The detector of the server looks for \<open>XEQ384\<close> and
  then for \<open>XET512\<close> in the window of the offsets 256 to 271; the marker checked first
  wins. For an image with no marker in this window and none in the window of the offsets
  512 to 527 it returns \<open>FRM3 Unknown\<close> when the image has 32768 bytes and \<open>FRM2\<close>
  otherwise. The detector of the class looks for \<open>XEQ384\<close>, \<open>XET512\<close> and
  \<open>FRM2\<close>, in this order, anywhere in the decoded image, and returns
  \<open>FRM3 Unknown\<close> when none occurs, whatever the length.
\<close>

theorem signature_detection:
  "(js_includes (js_slice d 256 272) (Buffer_from_ascii (js_str ''XEQ384''))
      \<longrightarrow> detectFrmType d = ''FRM3 XEQ384'') \<and>
   (\<not> js_includes (js_slice d 256 272) (Buffer_from_ascii (js_str ''XEQ384'')) \<and>
    js_includes (js_slice d 256 272) (Buffer_from_ascii (js_str ''XET512''))
      \<longrightarrow> detectFrmType d = ''FRM3 XET512'') \<and>
   (\<not> js_includes (js_slice d 256 272) (Buffer_from_ascii (js_str ''XEQ384'')) \<and>
    \<not> js_includes (js_slice d 256 272) (Buffer_from_ascii (js_str ''XET512'')) \<and>
    \<not> js_includes (js_slice d 512 528) (Buffer_from_ascii (js_str ''XEQ384'')) \<and>
    \<not> js_includes (js_slice d 512 528) (Buffer_from_ascii (js_str ''XET512'')) \<and>
    length d = 32768
      \<longrightarrow> detectFrmType d = ''FRM3 Unknown'') \<and>
   (\<not> js_includes (js_slice d 256 272) (Buffer_from_ascii (js_str ''XEQ384'')) \<and>
    \<not> js_includes (js_slice d 256 272) (Buffer_from_ascii (js_str ''XET512'')) \<and>
    \<not> js_includes (js_slice d 512 528) (Buffer_from_ascii (js_str ''XEQ384'')) \<and>
    \<not> js_includes (js_slice d 512 528) (Buffer_from_ascii (js_str ''XET512'')) \<and>
    length d \<noteq> 32768
      \<longrightarrow> detectFrmType d = ''FRM2'') \<and>
   FrmConverter_detectFRMType d =
     (if js_includes (TextDecoder_ascii d) (js_str ''XEQ384'') then ''FRM3 XEQ384''
      else if js_includes (TextDecoder_ascii d) (js_str ''XET512'') then ''FRM3 XET512''
      else if js_includes (TextDecoder_ascii d) (js_str ''FRM2'') then ''FRM2''
      else ''FRM3 Unknown'')"
  by (simp add: detectFrmType_def FrmConverter_detectFRMType_def signatures_def Let_def)

text \<open>
  Images of 32768 bytes with \<open>XEQ384\<close> and with \<open>XET512\<close> at the offset 256, the
  image of 32768 zeros, and an image of 100 zeros.
\<close>

theorem signature_detection_witness:
  "detectFrmType (image_with 256 [0x58, 0x45, 0x51, 0x33, 0x38, 0x34]) = ''FRM3 XEQ384'' \<and>
   detectFrmType (image_with 256 [0x58, 0x45, 0x54, 0x35, 0x31, 0x32]) = ''FRM3 XET512'' \<and>
   detectFrmType (replicate 32768 0) = ''FRM3 Unknown'' \<and>
   detectFrmType (replicate 100 0) = ''FRM2'' \<and>
   FrmConverter_detectFRMType (replicate 32768 0) = ''FRM3 Unknown''"
proof -
  have w1: "js_slice (image_with 256 [0x58, 0x45, 0x51, 0x33, 0x38, 0x34]) 256 272
              = Buffer_from_ascii (js_str ''XEQ384'') @ replicate 10 0"
    using marker_window [of 256 "[0x58, 0x45, 0x51, 0x33, 0x38, 0x34]"] by (simp add: marker_bytes)
  have w2: "js_slice (image_with 256 [0x58, 0x45, 0x54, 0x35, 0x31, 0x32]) 256 272
              = Buffer_from_ascii (js_str ''XET512'') @ replicate 10 0"
    using marker_window [of 256 "[0x58, 0x45, 0x54, 0x35, 0x31, 0x32]"] by (simp add: marker_bytes)
  have n2: "\<not> js_includes (Buffer_from_ascii (js_str ''XET512'') @ replicate 10 0)
                (Buffer_from_ascii (js_str ''XEQ384''))"
    by (auto simp: marker_bytes dest!: js_includes_set)
  have a: "detectFrmType (image_with 256 [0x58, 0x45, 0x51, 0x33, 0x38, 0x34]) = ''FRM3 XEQ384''"
    using signature_detection [of "image_with 256 [0x58, 0x45, 0x51, 0x33, 0x38, 0x34]"]
    unfolding w1 using js_includes_prefix by blast
  have b: "detectFrmType (image_with 256 [0x58, 0x45, 0x54, 0x35, 0x31, 0x32]) = ''FRM3 XET512''"
    using signature_detection [of "image_with 256 [0x58, 0x45, 0x54, 0x35, 0x31, 0x32]"]
    unfolding w2 using js_includes_prefix n2 by blast
  have c: "detectFrmType (replicate 32768 0) = ''FRM3 Unknown''"
    using signature_detection [of "replicate 32768 0"]
    by (simp add: slice_replicate no_marker_in_zeros)
  have d: "detectFrmType (replicate 100 0) = ''FRM2''"
    using signature_detection [of "replicate 100 0"] no_marker_in_zeros [of 0]
    by (simp add: slice_replicate)
  have e: "FrmConverter_detectFRMType (replicate 32768 0) = ''FRM3 Unknown''"
    using signature_detection [of "replicate 32768 0"]
    by (simp add: no_marker_in_decoded_zeros)
  from a b c d e show ?thesis by simp
qed

text \<open>
  The image of 32768 bytes with \<open>XEQ384\<close> at the offset 0 holds no marker in either
  window, and the detector of the class returns \<open>FRM3 XEQ384\<close> for it.
\<close>

theorem marker_outside_windows_detected:
  "length (image_with 0 [0x58, 0x45, 0x51, 0x33, 0x38, 0x34]) = 32768 \<and>
   js_slice (image_with 0 [0x58, 0x45, 0x51, 0x33, 0x38, 0x34]) 256 272 = replicate 16 0 \<and>
   js_slice (image_with 0 [0x58, 0x45, 0x51, 0x33, 0x38, 0x34]) 512 528 = replicate 16 0 \<and>
   \<not> js_includes (replicate 16 0) (Buffer_from_ascii (js_str ''XEQ384'')) \<and>
   \<not> js_includes (replicate 16 0) (Buffer_from_ascii (js_str ''XET512'')) \<and>
   FrmConverter_detectFRMType (image_with 0 [0x58, 0x45, 0x51, 0x33, 0x38, 0x34]) = ''FRM3 XEQ384''"
proof -
  have l: "length (image_with 0 [0x58, 0x45, 0x51, 0x33, 0x38, 0x34]) = 32768"
    by (simp add: length_image_with)
  have z: "js_slice (image_with 0 [0x58, 0x45, 0x51, 0x33, 0x38, 0x34]) 256 272 = replicate 16 0"
          "js_slice (image_with 0 [0x58, 0x45, 0x51, 0x33, 0x38, 0x34]) 512 528 = replicate 16 0"
    using zero_window [of 0 "[0x58, 0x45, 0x51, 0x33, 0x38, 0x34]" 256]
      zero_window [of 0 "[0x58, 0x45, 0x51, 0x33, 0x38, 0x34]" 512]
    by simp_all
  have "TextDecoder_ascii (image_with 0 [0x58, 0x45, 0x51, 0x33, 0x38, 0x34])
          = js_str ''XEQ384'' @ TextDecoder_ascii (replicate 32762 0)"
    by (simp add: image_with_def TextDecoder_ascii_def js_str_def windows1252_def)
  then have "js_includes (TextDecoder_ascii (image_with 0 [0x58, 0x45, 0x51, 0x33, 0x38, 0x34]))
               (js_str ''XEQ384'')"
    by (simp only: js_includes_prefix)
  then have c: "FrmConverter_detectFRMType (image_with 0 [0x58, 0x45, 0x51, 0x33, 0x38, 0x34])
                  = ''FRM3 XEQ384''"
    by (simp add: FrmConverter_detectFRMType_def signatures_def)
  from l z c no_marker_in_zeros [of 16] show ?thesis by simp
qed

text \<open>
  The detector of the server takes the window of the offsets 512 to 527 and never
  searches it: a marker that occurs there only is not reported.
\<close>

lemma detectFrmType_second_window_unused:
  "js_includes (js_slice (image_with 512 [0x58, 0x45, 0x51, 0x33, 0x38, 0x34]) 512 528)
     (Buffer_from_ascii (js_str ''XEQ384'')) \<and>
   detectFrmType (image_with 512 [0x58, 0x45, 0x51, 0x33, 0x38, 0x34]) = ''FRM3 Unknown''"
proof -
  have w: "js_slice (image_with 512 [0x58, 0x45, 0x51, 0x33, 0x38, 0x34]) 512 528
              = Buffer_from_ascii (js_str ''XEQ384'') @ replicate 10 0"
    using marker_window [of 512 "[0x58, 0x45, 0x51, 0x33, 0x38, 0x34]"] by (simp add: marker_bytes)
  have z: "js_slice (image_with 512 [0x58, 0x45, 0x51, 0x33, 0x38, 0x34]) 256 272 = replicate 16 0"
    using zero_window [of 512 "[0x58, 0x45, 0x51, 0x33, 0x38, 0x34]" 256] by simp
  have "detectFrmType (image_with 512 [0x58, 0x45, 0x51, 0x33, 0x38, 0x34]) = ''FRM3 Unknown''"
    by (simp add: detectFrmType_def Let_def z no_marker_in_zeros length_image_with)
  then show ?thesis unfolding w using js_includes_prefix by blast
qed

subsection \<open>C1: an input of the wrong size\<close>

text \<open>
  Claim C1, as the code has it. For every input whose length is not 32768 bytes the
  conversion of the class returns a failure that reports the expected length 32768 and the
  actual length, with no image and no vehicle data; the result is a value, nothing is
  thrown.
\<close>

theorem wrong_size_rejected:
  "length d \<noteq> 32768 \<longrightarrow>
     FrmConverter_convertDFlashToEEPROM d =
       \<lparr> success = False, eepromData = None,
         error = Some (InvalidDFlashSize 32768 (length d)), vehicleData = None \<rparr>"
  by (simp add: FrmConverter_convertDFlashToEEPROM_def DFLASH_SIZE_def)

text \<open>An input of 1024 bytes, and an input of 65537 bytes.\<close>

theorem wrong_size_rejected_witness:
  "length (replicate 1024 (0x42 :: byte)) \<noteq> 32768 \<and>
   FrmConverter_convertDFlashToEEPROM (replicate 1024 0x42) =
       \<lparr> success = False, eepromData = None,
         error = Some (InvalidDFlashSize 32768 1024), vehicleData = None \<rparr> \<and>
   length (replicate 65537 (0x42 :: byte)) \<noteq> 32768 \<and>
   FrmConverter_convertDFlashToEEPROM (replicate 65537 0x42) =
       \<lparr> success = False, eepromData = None,
         error = Some (InvalidDFlashSize 32768 65537), vehicleData = None \<rparr>"
  using wrong_size_rejected [of "replicate 1024 0x42"]
    wrong_size_rejected [of "replicate 65537 0x42"]
  by simp

text \<open>
  The other three functions check no size. For the input of 1024 bytes 0x42 the
  analyzer of the class returns a report, the analysis of the server throws its general
  error and the conversion of the server fails with the message of a range error; for an
  input of 12288 bytes the conversion of the server succeeds.
\<close>

theorem wrong_size_not_checked:
  "FrmConverter_analyzeDFlashCorruption (replicate 1024 0x42) =
     \<lparr> corruptionLevel = Some 100, recoverableSectors = 1, totalSectors = 1 \<rparr> \<and>
   analyzeDFlash (replicate 1024 0x42) = Inl FailedToAnalyze \<and>
   convertDFlashToEEPROM (replicate 1024 0x42) =
     \<lparr> success = False, eepromData = None, error = Some (Thrown RangeError) \<rparr> \<and>
   success (convertDFlashToEEPROM (replicate 12288 0x42))"
proof -
  have a: "FrmConverter_analyzeDFlashCorruption (replicate 1024 0x42) =
     \<lparr> corruptionLevel = Some 100, recoverableSectors = 1, totalSectors = 1 \<rparr>"
    by (simp add: FrmConverter_analyzeDFlashCorruption_def Let_def slice_replicate
        sector_meaningful_replicate Math_round_values)
  have m: "extractMileage (replicate 1024 0x42) = Inl RangeError"
    by (simp add: extractMileage_def extractMileage_from.simps [of _ 8192] Buffer_readUInt32LE_def)
  have b: "analyzeDFlash (replicate 1024 0x42) = Inl FailedToAnalyze"
    by (simp add: analyzeDFlash_def extractVehicleData_def Let_def m)
  have c: "convertDFlashToEEPROM (replicate 1024 0x42) =
     \<lparr> success = False, eepromData = None, error = Some (Thrown RangeError) \<rparr>"
    using m by (rule server_convert_failure)
  have "12288 \<le> length (replicate 12288 (0x42 :: byte))" by simp
  from extractMileage_find [OF this] obtain r where
    r: "extractMileage (replicate 12288 0x42) = Inr r" by blast
  have d: "success (convertDFlashToEEPROM (replicate 12288 0x42))"
  proof (rule server_convert_image [OF r])
    fix e
    assume "convertDFlashToEEPROM (replicate 12288 0x42) =
              \<lparr> success = True, eepromData = Some e, error = None \<rparr>"
    then show ?thesis by simp
  qed
  from a b c d show ?thesis by simp
qed

end
